theory Spec2Isabelle
  imports
    Complex_Main
    "HOL-Library.Multiset"
    "HOL-Library.AList"
    "HOL-Library.Sublist"
    "HOL-Library.Char_ord"
    "HOL-Library.List_Lexorder"
    "HOL-Library.Product_Lexorder"
begin

section \<open>The index layer of sourmash: \<open>src/sourmash/index/__init__.py\<close>\<close>

text \<open>
  The module defines the abstract class \<open>Index\<close> with the algorithms \<open>find\<close>,
  \<open>search\<close>, \<open>gather\<close> and \<open>counter_gather\<close>, the predicate
  \<open>select_signature\<close>, and the three backends \<open>LinearIndex\<close>,
  \<open>ZipFileLinearIndex\<close> and \<open>MultiIndex\<close>.

  Conventions of the embedding.
  \<^item> A raised exception is a value \<open>Inl e\<close> of the sum \<open>error + 'a\<close>.
  \<^item> Python floats (scores, thresholds) are real numbers; Python integers are \<open>int\<close>.
  \<^item> A Python string is a \<open>string\<close>; strings and tuples are compared
    lexicographically, as Python compares them.
  \<^item> The sketch class (\<open>MinHash\<close>) and the signature class are not part of this
    module. Their read-only parameters are record fields; their comparison methods are
    the fields of \<open>sketch_ops\<close>, which every algorithm takes as its first argument.
\<close>

subsection \<open>Errors\<close>

datatype error = TypeError string | ValueError string | AttributeError string

text \<open>Running a sequence of fallible steps: the first exception aborts the rest.\<close>

fun collect :: "(error + 'a) list \<Rightarrow> error + 'a list" where
  "collect [] = Inr []"
| "collect (x # xs) =
     (case x of
        Inl e \<Rightarrow> Inl e
      | Inr v \<Rightarrow> (case collect xs of Inl e \<Rightarrow> Inl e | Inr vs \<Rightarrow> Inr (v # vs)))"

subsection \<open>Sketches and signatures (external collaborators)\<close>

record MinHash =
  mh_ksize :: int
  mh_moltype :: string
  mh_scaled :: int
  mh_num :: int
  mh_hashes :: "nat list"

record SourmashSignature =
  sig_name :: string
  minhash :: MinHash

text \<open>
  The methods of the sketch capability that the index layer calls. \<open>similarity q x ia\<close>
  is \<open>q.similarity(x, downsample=True, ignore_abundance=ia)\<close>; \<open>contained_by q x\<close> is
  \<open>q.contained_by(x, downsample=True)\<close> and \<open>max_containment q x\<close> is
  \<open>q.max_containment(x, downsample=True)\<close> on signatures; \<open>mh_contained_by a b\<close> is
  \<open>a.contained_by(b, True)\<close> and \<open>count_common a b\<close> is \<open>a.count_common(b, True)\<close> on
  sketches; \<open>mh_len\<close> is \<open>len\<close> of a sketch and \<open>md5sum\<close> the fingerprint of a
  signature.
\<close>

record sketch_ops =
  similarity :: "SourmashSignature \<Rightarrow> SourmashSignature \<Rightarrow> bool \<Rightarrow> real"
  contained_by :: "SourmashSignature \<Rightarrow> SourmashSignature \<Rightarrow> real"
  max_containment :: "SourmashSignature \<Rightarrow> SourmashSignature \<Rightarrow> real"
  mh_contained_by :: "MinHash \<Rightarrow> MinHash \<Rightarrow> real"
  count_common :: "MinHash \<Rightarrow> MinHash \<Rightarrow> int"
  mh_len :: "MinHash \<Rightarrow> nat"
  md5sum :: "SourmashSignature \<Rightarrow> string"

subsection \<open>Python truthiness and \<open>or\<close>\<close>

fun truthy_int :: "int option \<Rightarrow> bool" where
  "truthy_int None = False"
| "truthy_int (Some n) = (n \<noteq> 0)"

fun truthy_str :: "string option \<Rightarrow> bool" where
  "truthy_str None = False"
| "truthy_str (Some s) = (s \<noteq> [])"

text \<open>\<open>a or b\<close> on optional strings: \<open>a\<close> when it is truthy, otherwise \<open>b\<close>.\<close>

definition py_or :: "string option \<Rightarrow> string option \<Rightarrow> string option" where
  "py_or a b = (if truthy_str a then a else b)"

subsection \<open>The selection predicate\<close>

text \<open>
  The keyword arguments of \<open>select\<close>, as \<open>select_signature\<close> binds them:
  \<open>ksize=None, moltype=None, scaled=0, num=0, containment=False\<close>. An absent keyword
  has its default value. \<open>kw_unexpected\<close> lists the keywords that are not parameters of
  \<open>select_signature\<close> (such as \<open>abund\<close>); calling it with one of them raises
  \<open>TypeError\<close> before the body runs.
\<close>

record select_kwargs =
  kw_ksize :: "int option"
  kw_moltype :: "string option"
  kw_scaled :: int
  kw_num :: int
  kw_containment :: bool
  kw_unexpected :: "string list"

definition select_signature :: "SourmashSignature \<Rightarrow> select_kwargs \<Rightarrow> error + bool" where
  "select_signature ss kw =
     (if kw_unexpected kw \<noteq> [] then
        Inl (TypeError ''select_signature() got an unexpected keyword argument'')
      else if truthy_int (kw_ksize kw) \<and> kw_ksize kw \<noteq> Some (mh_ksize (minhash ss)) then
        Inr False
      else if truthy_str (kw_moltype kw) \<and> kw_moltype kw \<noteq> Some (mh_moltype (minhash ss)) then
        Inr False
      else if kw_containment kw \<and> kw_scaled kw = 0 then
        Inl (ValueError ''containment requires scaled in Index.select'')
      else if kw_containment kw \<and> mh_scaled (minhash ss) = 0 then
        Inr False
      else if kw_scaled kw \<noteq> 0 \<and> mh_num (minhash ss) \<noteq> 0 then
        Inr False
      else if kw_num kw \<noteq> 0
              \<and> (mh_scaled (minhash ss) \<noteq> 0 \<or> kw_num kw \<noteq> mh_num (minhash ss)) then
        Inr False
      else Inr True)"

text \<open>
  The loop \<open>for ss in sigs: if select_signature(ss, **kwargs): keep ss\<close>, shared by
  \<open>LinearIndex.select\<close> and by the enumeration of \<open>ZipFileLinearIndex\<close>.
\<close>

fun select_list :: "select_kwargs \<Rightarrow> SourmashSignature list \<Rightarrow> error + SourmashSignature list" where
  "select_list kw [] = Inr []"
| "select_list kw (ss # rest) =
     (case select_signature ss kw of
        Inl e \<Rightarrow> Inl e
      | Inr keep \<Rightarrow>
          (case select_list kw rest of
             Inl e \<Rightarrow> Inl e
           | Inr kept \<Rightarrow> Inr (if keep then ss # kept else kept)))"

subsection \<open>The backends\<close>

text \<open>
  A zip archive as the index reads it: \<open>zf.filename\<close> and \<open>zf.infolist()\<close>, each
  member with its name and the signatures that \<open>load_signatures\<close> decodes from it
  (none for a member that is not a valid signature file).
\<close>

record ZipFile =
  zf_filename :: "string option"
  zf_infolist :: "(string \<times> SourmashSignature list) list"

text \<open>
  \<open>LinearIndex\<close> holds \<open>_signatures\<close> and \<open>location\<close>; \<open>ZipFileLinearIndex\<close> holds
  \<open>zf\<close>, \<open>selection_dict\<close> and \<open>traverse_yield_all\<close>; \<open>MultiIndex\<close> holds
  \<open>index_list\<close> and \<open>source_list\<close>.

  \<open>selection_dict\<close> is \<open>None\<close> for an archive that \<open>select\<close> was never called on.
  The test \<open>if selection_dict\<close> is also false for the empty dictionary; then every
  keyword has its default and \<open>select_signature\<close> accepts every signature (lemma
  \<open>select_signature_defaults\<close>), so the model filters whenever \<open>select\<close> was called.
\<close>

datatype index =
    LinearIndex "SourmashSignature list" "string option"
  | ZipFileLinearIndex ZipFile "select_kwargs option" bool
  | MultiIndex "index list" "string option list"

definition is_sig_member :: "bool \<Rightarrow> string \<Rightarrow> bool" where
  "is_sig_member traverse_yield_all filename =
     (suffix ''.sig'' filename \<or> suffix ''.sig.gz'' filename \<or> traverse_yield_all)"

definition yield_selected ::
  "select_kwargs option \<Rightarrow> SourmashSignature list \<Rightarrow> error + SourmashSignature list" where
  "yield_selected selection_dict loaded =
     (case selection_dict of None \<Rightarrow> Inr loaded | Some kw \<Rightarrow> select_list kw loaded)"

definition ZipFileLinearIndex_signatures ::
  "ZipFile \<Rightarrow> select_kwargs option \<Rightarrow> bool \<Rightarrow> error + SourmashSignature list" where
  "ZipFileLinearIndex_signatures zf selection_dict traverse_yield_all =
     map_sum id concat
       (collect (map (\<lambda>zipinfo. yield_selected selection_dict (snd zipinfo))
                     (filter (\<lambda>zipinfo. is_sig_member traverse_yield_all (fst zipinfo))
                             (zf_infolist zf))))"

fun signatures :: "index \<Rightarrow> error + SourmashSignature list" where
  "signatures (LinearIndex sigs filename) = Inr sigs"
| "signatures (ZipFileLinearIndex zf selection_dict traverse_yield_all) =
     ZipFileLinearIndex_signatures zf selection_dict traverse_yield_all"
| "signatures (MultiIndex index_list source_list) =
     map_sum id concat (collect (map signatures index_list))"

text \<open>
  \<open>getattr(self, "filename", None)\<close>: no backend has an attribute \<open>filename\<close>
  (\<open>LinearIndex\<close> stores its constructor argument \<open>filename\<close> as \<open>location\<close>,
  \<open>ZipFileLinearIndex\<close> reads \<open>zf.filename\<close> through the property \<open>location\<close>,
  \<open>MultiIndex\<close> has \<open>index_list\<close> and \<open>source_list\<close>), so the default is returned.
\<close>

fun getattr_filename :: "index \<Rightarrow> string option" where
  "getattr_filename (LinearIndex sigs filename) = None"
| "getattr_filename (ZipFileLinearIndex zf selection_dict traverse_yield_all) = None"
| "getattr_filename (MultiIndex index_list source_list) = None"

subsection \<open>Sorting\<close>

text \<open>
  \<open>list.sort\<close> is stable. \<open>xs.sort(key=f)\<close> is \<open>sort_key f xs\<close>; with
  \<open>reverse=True\<close> the list is sorted in descending order of the key and elements with
  equal keys keep their original order, which is reversing, sorting and reversing again.
\<close>

definition sort_reverse :: "('a \<Rightarrow> 'k::linorder) \<Rightarrow> 'a list \<Rightarrow> 'a list" where
  "sort_reverse f xs = rev (sort_key f (rev xs))"

subsection \<open>\<open>Index.search\<close>\<close>

type_synonym result = "real \<times> SourmashSignature \<times> string option"

text \<open>The loop \<open>for ss in self.signatures(): ...\<close> of \<open>search\<close>.\<close>

fun search_scan ::
  "(SourmashSignature \<Rightarrow> real) \<Rightarrow> real \<Rightarrow> string option \<Rightarrow> SourmashSignature list \<Rightarrow> result list" where
  "search_scan query_match threshold location [] = []"
| "search_scan query_match threshold location (ss # rest) =
     (let score = query_match ss in
      if score \<ge> threshold
      then (score, ss, location) # search_scan query_match threshold location rest
      else search_scan query_match threshold location rest)"

definition query_match_fn ::
  "sketch_ops \<Rightarrow> SourmashSignature \<Rightarrow> bool \<Rightarrow> bool \<Rightarrow> bool \<Rightarrow> SourmashSignature \<Rightarrow> real" where
  "query_match_fn ops query do_containment do_max_containment ignore_abundance =
     (if do_containment then (\<lambda>x. contained_by ops query x)
      else if do_max_containment then (\<lambda>x. max_containment ops query x)
      else (\<lambda>x. similarity ops query x ignore_abundance))"

text \<open>
  \<open>Index.search\<close> reads two things from \<open>self\<close>: the enumeration \<open>self.signatures()\<close>
  (which may raise) and \<open>self.location\<close>. They are the arguments \<open>sigs\<close> and
  \<open>location\<close>.
\<close>

definition Index_search ::
  "sketch_ops \<Rightarrow> (error + SourmashSignature list) \<Rightarrow> string option \<Rightarrow> SourmashSignature
     \<Rightarrow> real option \<Rightarrow> bool \<Rightarrow> bool \<Rightarrow> bool \<Rightarrow> error + result list" where
  "Index_search ops sigs location query threshold do_containment do_max_containment
       ignore_abundance =
     (case threshold of
        None \<Rightarrow> Inl (TypeError ''search requires threshold'')
      | Some t \<Rightarrow>
          if do_containment \<and> do_max_containment then
            Inl (TypeError ''do_containment and do_max_containment cannot both be True'')
          else
            (case sigs of
               Inl e \<Rightarrow> Inl e
             | Inr sl \<Rightarrow>
                 Inr (sort_key (\<lambda>x. - fst x)
                        (search_scan
                           (query_match_fn ops query do_containment do_max_containment
                              ignore_abundance)
                           t location sl))))"

text \<open>
  \<open>MultiIndex.search\<close> and \<open>MultiIndex.gather\<close> re-tag every result of a sub-index:
  \<open>best_src = src or filename\<close>.
\<close>

definition retag :: "string option \<Rightarrow> result \<Rightarrow> result" where
  "retag src r = (fst r, fst (snd r), py_or src (snd (snd r)))"

function search ::
  "sketch_ops \<Rightarrow> index \<Rightarrow> SourmashSignature \<Rightarrow> real option \<Rightarrow> bool \<Rightarrow> bool \<Rightarrow> bool
     \<Rightarrow> error + result list" where
  "search ops (LinearIndex sigs filename) query threshold dc dmc ia =
     Index_search ops (Inr sigs) filename query threshold dc dmc ia"
| "search ops (ZipFileLinearIndex zf selection_dict traverse_yield_all) query threshold dc dmc ia =
     Index_search ops (ZipFileLinearIndex_signatures zf selection_dict traverse_yield_all)
       (zf_filename zf) query threshold dc dmc ia"
| "search ops (MultiIndex index_list source_list) query threshold dc dmc ia =
     (case collect
             (map (\<lambda>p. map_sum id (map (retag (snd p)))
                          (search ops (fst p) query threshold dc dmc ia))
                  (zip index_list source_list)) of
        Inl e \<Rightarrow> Inl e
      | Inr ms \<Rightarrow> Inr (sort_key (\<lambda>x. - fst x) (concat ms)))"
  by pat_completeness auto
termination
  by (relation "measure (\<lambda>(ops, idx, rest). size idx)")
     (auto dest!: set_zip_leftD simp: less_Suc_eq_le size_list_estimation')

subsection \<open>\<open>Index.gather\<close>\<close>

text \<open>The sort key \<open>lambda x: (x[0], x[1].md5sum())\<close>.\<close>

definition gather_key :: "sketch_ops \<Rightarrow> result \<Rightarrow> real \<times> string" where
  "gather_key ops x = (fst x, md5sum ops (fst (snd x)))"

fun gather_scan ::
  "sketch_ops \<Rightarrow> SourmashSignature \<Rightarrow> real \<Rightarrow> string option \<Rightarrow> SourmashSignature list
     \<Rightarrow> result list" where
  "gather_scan ops query threshold location [] = []"
| "gather_scan ops query threshold location (ss # rest) =
     (let cont = mh_contained_by ops (minhash query) (minhash ss) in
      if cont \<noteq> 0 \<and> cont \<ge> threshold
      then (cont, ss, location) # gather_scan ops query threshold location rest
      else gather_scan ops query threshold location rest)"

text \<open>\<open>threshold_bp\<close> is \<open>kwargs.get('threshold_bp', 0.0)\<close>.\<close>

definition Index_gather ::
  "sketch_ops \<Rightarrow> (error + SourmashSignature list) \<Rightarrow> string option \<Rightarrow> SourmashSignature
     \<Rightarrow> real \<Rightarrow> error + result list" where
  "Index_gather ops sigs location query threshold_bp =
     (if mh_len ops (minhash query) = 0 then Inr []
      else
        let scaled = mh_scaled (minhash query) in
        if scaled = 0 then Inl (ValueError ''gather requires scaled signatures'')
        else
          let n_threshold_hashes = threshold_bp / real_of_int scaled;
              threshold =
                (if threshold_bp \<noteq> 0
                 then n_threshold_hashes / real (mh_len ops (minhash query))
                 else 0)
          in
          if threshold_bp \<noteq> 0 \<and> threshold > 1 then Inr []
          else
            (case sigs of
               Inl e \<Rightarrow> Inl e
             | Inr sl \<Rightarrow>
                 Inr (sort_reverse (gather_key ops)
                        (gather_scan ops query threshold location sl))))"

function gather :: "sketch_ops \<Rightarrow> index \<Rightarrow> SourmashSignature \<Rightarrow> real \<Rightarrow> error + result list" where
  "gather ops (LinearIndex sigs filename) query threshold_bp =
     Index_gather ops (Inr sigs) filename query threshold_bp"
| "gather ops (ZipFileLinearIndex zf selection_dict traverse_yield_all) query threshold_bp =
     Index_gather ops (ZipFileLinearIndex_signatures zf selection_dict traverse_yield_all)
       (zf_filename zf) query threshold_bp"
| "gather ops (MultiIndex index_list source_list) query threshold_bp =
     (case collect
             (map (\<lambda>p. map_sum id (map (retag (snd p))) (gather ops (fst p) query threshold_bp))
                  (zip index_list source_list)) of
        Inl e \<Rightarrow> Inl e
      | Inr rs \<Rightarrow> Inr (sort_reverse (gather_key ops) (concat rs)))"
  by pat_completeness auto
termination
  by (relation "measure (\<lambda>(ops, idx, rest). size idx)")
     (auto dest!: set_zip_leftD simp: less_Suc_eq_le size_list_estimation')

subsection \<open>\<open>Index.counter_gather\<close>\<close>

text \<open>
  A \<open>collections.Counter\<close> keeps its keys in insertion order: an association list.
  Reading a missing key gives 0 and does not insert it; assigning to a present key keeps
  its position and assigning to a missing key appends it (\<open>AList.update\<close>); \<open>del\<close>
  removes the key (\<open>AList.delete\<close>). \<open>most_common()\<close> is
  \<open>sorted(self.items(), key=itemgetter(1), reverse=True)\<close>.
\<close>

type_synonym counter = "(nat \<times> int) list"

definition counter_get :: "counter \<Rightarrow> nat \<Rightarrow> int" where
  "counter_get c k = (case map_of c k of None \<Rightarrow> 0 | Some v \<Rightarrow> v)"

definition most_common :: "counter \<Rightarrow> (nat \<times> int) list" where
  "most_common c = sort_reverse snd c"

text \<open>Phase 1: \<open>for (i, ss) in enumerate(signatures): counter[i] = ...\<close>.\<close>

definition build_counter :: "sketch_ops \<Rightarrow> SourmashSignature \<Rightarrow> SourmashSignature list \<Rightarrow> counter" where
  "build_counter ops query sigs =
     fold (\<lambda>p c. AList.update (fst p) (count_common ops (minhash query) (minhash (snd p))) c)
          (List.enumerate 0 sigs) []"

text \<open>
  One pass of the inner loop \<open>for (dataset_id, _) in most_common\<close>:
  \<open>counter[dataset_id] -= ...; if counter[dataset_id] == 0: del counter[dataset_id]\<close>.
\<close>

definition decrement ::
  "sketch_ops \<Rightarrow> SourmashSignature list \<Rightarrow> SourmashSignature \<Rightarrow> nat \<Rightarrow> counter \<Rightarrow> counter" where
  "decrement ops sigs match dataset_id c =
     (let c' = AList.update dataset_id
                 (counter_get c dataset_id
                    - count_common ops (minhash (sigs ! dataset_id)) (minhash match)) c
      in if counter_get c' dataset_id = 0 then AList.delete dataset_id c' else c')"

text \<open>
  The body of the \<open>while\<close> loop after the test \<open>size >= n_threshold_hashes\<close> has
  passed: the new counter and the new result list. \<open>filename\<close> is the value of
  \<open>getattr(self, "filename", None)\<close>.
\<close>

definition greedy_step ::
  "sketch_ops \<Rightarrow> SourmashSignature \<Rightarrow> SourmashSignature list \<Rightarrow> string option \<Rightarrow> real
     \<Rightarrow> counter \<Rightarrow> result list \<Rightarrow> counter \<times> result list" where
  "greedy_step ops query sigs filename threshold c results =
     (let mc = most_common c;
          dataset_id = fst (hd mc);
          match = sigs ! dataset_id;
          c1 = AList.delete dataset_id c;
          cont = mh_contained_by ops (minhash query) (minhash match);
          results' = (if cont \<noteq> 0 \<and> cont \<ge> threshold
                      then results @ [(cont, match, filename)] else results);
          c2 = fold (decrement ops sigs match) (map fst mc) c1
      in (c2, results'))"

text \<open>
  The \<open>while\<close> loop. It need not terminate (see \<open>greedy_loop_diverges\<close>), so it
  is a partial function: \<open>None\<close> is a run that never returns.
\<close>

partial_function (option) greedy_loop ::
  "sketch_ops \<Rightarrow> SourmashSignature \<Rightarrow> SourmashSignature list \<Rightarrow> string option \<Rightarrow> real \<Rightarrow> real
     \<Rightarrow> counter \<Rightarrow> real \<Rightarrow> result list \<Rightarrow> result list option" where
  "greedy_loop ops query sigs filename n_threshold_hashes threshold c match_size results =
     (if c \<noteq> [] \<and> match_size \<ge> n_threshold_hashes then
        (let size = snd (hd (most_common c)) in
         if real_of_int size \<ge> n_threshold_hashes then
           greedy_loop ops query sigs filename n_threshold_hashes threshold
             (fst (greedy_step ops query sigs filename threshold c results))
             (real_of_int size)
             (snd (greedy_step ops query sigs filename threshold c results))
         else Some results)
      else Some results)"

declare greedy_loop.simps [code]

definition Index_counter_gather ::
  "sketch_ops \<Rightarrow> (error + SourmashSignature list) \<Rightarrow> string option \<Rightarrow> SourmashSignature
     \<Rightarrow> real \<Rightarrow> (error + result list) option" where
  "Index_counter_gather ops sigs filename query threshold_bp =
     (if mh_len ops (minhash query) = 0 then Some (Inr [])
      else
        let scaled = mh_scaled (minhash query) in
        if scaled = 0 then Some (Inl (ValueError ''gather requires scaled signatures''))
        else
          let n_threshold_hashes =
                (if threshold_bp \<noteq> 0 then threshold_bp / real_of_int scaled else 0);
              threshold =
                (if threshold_bp \<noteq> 0
                 then n_threshold_hashes / real (mh_len ops (minhash query))
                 else 0)
          in
          if threshold_bp \<noteq> 0 \<and> threshold > 1 then Some (Inr [])
          else
            (case sigs of
               Inl e \<Rightarrow> Some (Inl e)
             | Inr sl \<Rightarrow>
                 map_option (\<lambda>results. Inr (sort_reverse (gather_key ops) results))
                   (greedy_loop ops query sl filename n_threshold_hashes threshold
                      (build_counter ops query sl) n_threshold_hashes [])))"

text \<open>No backend overrides \<open>counter_gather\<close>.\<close>

definition counter_gather ::
  "sketch_ops \<Rightarrow> index \<Rightarrow> SourmashSignature \<Rightarrow> real \<Rightarrow> (error + result list) option" where
  "counter_gather ops idx query threshold_bp =
     Index_counter_gather ops (signatures idx) (getattr_filename idx) query threshold_bp"

subsection \<open>\<open>select\<close>\<close>

function select :: "index \<Rightarrow> select_kwargs \<Rightarrow> error + index" where
  "select (LinearIndex sigs filename) kw =
     map_sum id (\<lambda>siglist. LinearIndex siglist filename) (select_list kw sigs)"
| "select (ZipFileLinearIndex zf selection_dict traverse_yield_all) kw =
     Inr (ZipFileLinearIndex zf (Some kw) traverse_yield_all)"
| "select (MultiIndex index_list source_list) kw =
     (case collect
             (map (\<lambda>p. map_sum id (\<lambda>idx. (idx, snd p)) (select (fst p) kw))
                  (zip index_list source_list)) of
        Inl e \<Rightarrow> Inl e
      | Inr ps \<Rightarrow> Inr (MultiIndex (map fst ps) (map snd ps)))"
  by pat_completeness auto
termination
  by (relation "measure (\<lambda>(idx, kw). size idx)")
     (auto dest!: set_zip_leftD simp: less_Suc_eq_le size_list_estimation')

subsection \<open>A concrete sketch capability for the examples\<close>

text \<open>
  Sketches as plain hash lists: the overlap of two sketches is the number of hashes of
  the first that occur in the second, containment is the overlap divided by the size of
  the first sketch, and the name of a signature stands for its fingerprint.
\<close>

definition overlap :: "MinHash \<Rightarrow> MinHash \<Rightarrow> nat" where
  "overlap a b = length (filter (\<lambda>h. h \<in> set (mh_hashes b)) (mh_hashes a))"

definition ratio :: "nat \<Rightarrow> nat \<Rightarrow> real" where
  "ratio a b = (if b = 0 then 0 else real a / real b)"

definition set_ops :: sketch_ops where
  "set_ops =
     \<lparr> similarity = (\<lambda>q x ia.
         ratio (overlap (minhash q) (minhash x))
               (length (mh_hashes (minhash q)) + length (mh_hashes (minhash x))
                  - overlap (minhash q) (minhash x))),
       contained_by = (\<lambda>q x.
         ratio (overlap (minhash q) (minhash x)) (length (mh_hashes (minhash q)))),
       max_containment = (\<lambda>q x.
         ratio (overlap (minhash q) (minhash x))
               (min (length (mh_hashes (minhash q))) (length (mh_hashes (minhash x))))),
       mh_contained_by = (\<lambda>a b. ratio (overlap a b) (length (mh_hashes a))),
       count_common = (\<lambda>a b. int (overlap a b)),
       mh_len = (\<lambda>a. length (mh_hashes a)),
       md5sum = sig_name \<rparr>"

definition scaled_sig :: "string \<Rightarrow> nat list \<Rightarrow> SourmashSignature" where
  "scaled_sig name hashes =
     \<lparr> sig_name = name,
       minhash = \<lparr> mh_ksize = 31, mh_moltype = ''DNA'', mh_scaled = 1000, mh_num = 0,
                   mh_hashes = hashes \<rparr> \<rparr>"

definition num_sig :: "string \<Rightarrow> nat list \<Rightarrow> SourmashSignature" where
  "num_sig name hashes =
     \<lparr> sig_name = name,
       minhash = \<lparr> mh_ksize = 31, mh_moltype = ''DNA'', mh_scaled = 0, mh_num = 500,
                   mh_hashes = hashes \<rparr> \<rparr>"

definition sigA :: SourmashSignature where "sigA = scaled_sig ''a'' [1, 2, 3]"
definition sigB :: SourmashSignature where "sigB = scaled_sig ''b'' [4, 5, 6]"
definition sigC :: SourmashSignature where "sigC = scaled_sig ''c'' [1, 2]"
definition sigQ :: SourmashSignature where "sigQ = scaled_sig ''q'' [1, 2, 3, 4, 5, 6]"
definition sigD :: SourmashSignature where "sigD = scaled_sig ''d'' [4, 5]"

text \<open>An archive with two signature members and one other file, and a selection.\<close>

definition demo_zip :: ZipFile where
  "demo_zip =
     \<lparr> zf_filename = Some ''a.zip'',
       zf_infolist = [(''b.sig'', [sigB]), (''README.txt'', []),
                      (''n.sig.gz'', [num_sig ''n'' [7, 8]])] \<rparr>"

definition scaled_kw :: select_kwargs where
  "scaled_kw =
     \<lparr> kw_ksize = Some 31, kw_moltype = None, kw_scaled = 1000, kw_num = 0,
       kw_containment = True, kw_unexpected = [] \<rparr>"

subsection \<open>Notions used to state the properties\<close>

text \<open>
  The attribute \<open>location\<close>: a field of \<open>LinearIndex\<close>, the property
  \<open>zf.filename\<close> of \<open>ZipFileLinearIndex\<close>; \<open>MultiIndex\<close> has none.
\<close>

fun location :: "index \<Rightarrow> error + string option" where
  "location (LinearIndex sigs filename) = Inr filename"
| "location (ZipFileLinearIndex zf selection_dict traverse_yield_all) = Inr (zf_filename zf)"
| "location (MultiIndex index_list source_list) =
     Inl (AttributeError ''MultiIndex object has no attribute location'')"

text \<open>
  The constructor of \<open>MultiIndex\<close> asserts that its two lists have the same length.
\<close>

fun wf_index :: "index \<Rightarrow> bool" where
  "wf_index (LinearIndex sigs filename) = True"
| "wf_index (ZipFileLinearIndex zf selection_dict traverse_yield_all) = True"
| "wf_index (MultiIndex index_list source_list) =
     (length index_list = length source_list \<and> (\<forall>idx \<in> set index_list. wf_index idx))"

text \<open>
  The enumeration of an index with, for every signature, the source that the code of
  \<open>search\<close> and \<open>gather\<close> computes for it: the location of a \<open>LinearIndex\<close> or
  \<open>ZipFileLinearIndex\<close>; under a \<open>MultiIndex\<close>, the source recorded for the
  sub-index when it is truthy, otherwise what the sub-index reports.
\<close>

function tagged_signatures :: "index \<Rightarrow> error + (SourmashSignature \<times> string option) list" where
  "tagged_signatures (LinearIndex sigs filename) = Inr (map (\<lambda>ss. (ss, filename)) sigs)"
| "tagged_signatures (ZipFileLinearIndex zf selection_dict traverse_yield_all) =
     map_sum id (map (\<lambda>ss. (ss, zf_filename zf)))
       (ZipFileLinearIndex_signatures zf selection_dict traverse_yield_all)"
| "tagged_signatures (MultiIndex index_list source_list) =
     map_sum id concat
       (collect (map (\<lambda>p. map_sum id (map (\<lambda>t. (fst t, py_or (snd p) (snd t))))
                          (tagged_signatures (fst p)))
                     (zip index_list source_list)))"
  by pat_completeness auto
termination
  by (relation "measure size")
     (auto dest!: set_zip_leftD simp: less_Suc_eq_le size_list_estimation')

text \<open>The results of a scan over tagged signatures, before sorting.\<close>

definition tagged_matches ::
  "(SourmashSignature \<Rightarrow> real) \<Rightarrow> (real \<Rightarrow> bool) \<Rightarrow> (SourmashSignature \<times> string option) list
     \<Rightarrow> result list" where
  "tagged_matches score keep tagged =
     map (\<lambda>p. (score (fst p), fst p, snd p)) (filter (\<lambda>p. keep (score (fst p))) tagged)"

text \<open>
  Descending order of the pair (containment, fingerprint): a larger containment first,
  and among equal containments the lexicographically larger fingerprint first.
\<close>

definition gather_order :: "sketch_ops \<Rightarrow> result \<Rightarrow> result \<Rightarrow> bool" where
  "gather_order ops a b =
     (fst a > fst b \<or> (fst a = fst b \<and> md5sum ops (fst (snd a)) \<ge> md5sum ops (fst (snd b))))"

text \<open>
  The override as the docstring of \<open>MultiIndex\<close> gives it: ``If the source is not
  None, then it will be used to override the 'filename' in the triple that is returned
  by search and gather.''
\<close>

definition override_source :: "string option \<Rightarrow> string option \<Rightarrow> string option" where
  "override_source src filename = (case src of None \<Rightarrow> filename | Some s \<Rightarrow> Some s)"

text \<open>
  The enumeration of an index with, for every signature, the source that the docstring
  gives it: the location of a \<open>LinearIndex\<close> or \<open>ZipFileLinearIndex\<close>; under a
  \<open>MultiIndex\<close>, the source recorded for the sub-index when it is not \<open>None\<close>,
  otherwise what the sub-index reports.
\<close>

function sourced_signatures :: "index \<Rightarrow> error + (SourmashSignature \<times> string option) list" where
  "sourced_signatures (LinearIndex sigs filename) = Inr (map (\<lambda>ss. (ss, filename)) sigs)"
| "sourced_signatures (ZipFileLinearIndex zf selection_dict traverse_yield_all) =
     map_sum id (map (\<lambda>ss. (ss, zf_filename zf)))
       (ZipFileLinearIndex_signatures zf selection_dict traverse_yield_all)"
| "sourced_signatures (MultiIndex index_list source_list) =
     map_sum id concat
       (collect (map (\<lambda>p. map_sum id (map (\<lambda>t. (fst t, override_source (snd p) (snd t))))
                          (sourced_signatures (fst p)))
                     (zip index_list source_list)))"
  by pat_completeness auto
termination
  by (relation "measure size")
     (auto dest!: set_zip_leftD simp: less_Suc_eq_le size_list_estimation')

text \<open>
  Every source recorded in a \<open>MultiIndex\<close> (at any depth) is \<open>None\<close> or a string
  that is not empty.
\<close>

fun recorded_sources_nonempty :: "index \<Rightarrow> bool" where
  "recorded_sources_nonempty (LinearIndex sigs filename) = True"
| "recorded_sources_nonempty (ZipFileLinearIndex zf selection_dict traverse_yield_all) = True"
| "recorded_sources_nonempty (MultiIndex index_list source_list) =
     ((\<forall>src \<in> set source_list. src \<noteq> Some [])
      \<and> (\<forall>idx \<in> set index_list. recorded_sources_nonempty idx))"

section \<open>Properties\<close>

subsection \<open>Argument checks of \<open>search\<close>\<close>

text \<open>
  C2. \<open>Index.search\<close> raises \<open>TypeError\<close> when \<open>threshold\<close> is absent, and raises
  \<open>TypeError\<close> when \<open>do_containment\<close> and \<open>do_max_containment\<close> are both true. The
  result does not depend on the enumeration \<open>sigs\<close> (not even on whether enumerating
  would itself raise) nor on the scoring functions: the checks come first. The same holds
  for the two backends that inherit \<open>search\<close>.
\<close>

theorem search_configuration_errors:
  "Index_search ops sigs loc query None dc dmc ia
     = Inl (TypeError ''search requires threshold'')
   \<and> Index_search ops sigs loc query (Some t) True True ia
     = Inl (TypeError ''do_containment and do_max_containment cannot both be True'')
   \<and> search ops (LinearIndex sl filename) query None dc dmc ia
     = Inl (TypeError ''search requires threshold'')
   \<and> search ops (LinearIndex sl filename) query (Some t) True True ia
     = Inl (TypeError ''do_containment and do_max_containment cannot both be True'')
   \<and> search ops (ZipFileLinearIndex zf sd tya) query None dc dmc ia
     = Inl (TypeError ''search requires threshold'')
   \<and> search ops (ZipFileLinearIndex zf sd tya) query (Some t) True True ia
     = Inl (TypeError ''do_containment and do_max_containment cannot both be True'')"
  by (simp add: Index_search_def)

theorem search_configuration_errors_witness:
  "Index_search set_ops (Inl (ValueError ''containment requires scaled in Index.select''))
       (Some ''x.zip'') sigQ None True False False
     = Inl (TypeError ''search requires threshold'')
   \<and> search set_ops (LinearIndex [sigA, sigB] (Some ''x.sig'')) sigQ (Some (1 / 2)) True True False
     = Inl (TypeError ''do_containment and do_max_containment cannot both be True'')"
  using search_configuration_errors
          [of set_ops "Inl (ValueError ''containment requires scaled in Index.select'')"
              "Some ''x.zip''" sigQ True False False "1 / 2" "[sigA, sigB]" "Some ''x.sig''"]
  by simp

subsection \<open>Preconditions of \<open>gather\<close> and \<open>counter_gather\<close>\<close>

text \<open>
  C3, as the code has it. \<open>gather\<close> and \<open>counter_gather\<close> return the empty list when
  the query sketch is empty, whatever its sampling policy, and raise \<open>ValueError\<close> when
  the query sketch is not empty and has no scaled policy.
\<close>

theorem gather_preconditions:
  "(mh_len ops (minhash query) = 0 \<longrightarrow>
      Index_gather ops sigs loc query threshold_bp = Inr []
      \<and> Index_counter_gather ops sigs filename query threshold_bp = Some (Inr [])
      \<and> counter_gather ops idx query threshold_bp = Some (Inr []))
   \<and> (mh_len ops (minhash query) \<noteq> 0 \<and> mh_scaled (minhash query) = 0 \<longrightarrow>
      Index_gather ops sigs loc query threshold_bp
        = Inl (ValueError ''gather requires scaled signatures'')
      \<and> Index_counter_gather ops sigs filename query threshold_bp
        = Some (Inl (ValueError ''gather requires scaled signatures''))
      \<and> counter_gather ops idx query threshold_bp
        = Some (Inl (ValueError ''gather requires scaled signatures'')))"
  by (simp add: Index_gather_def Index_counter_gather_def counter_gather_def)

theorem gather_preconditions_witness:
  "mh_len set_ops (minhash (scaled_sig ''e'' [])) = 0
   \<and> Index_gather set_ops (Inr [sigA]) (Some ''x.sig'') (scaled_sig ''e'' []) 0 = Inr []
   \<and> counter_gather set_ops (LinearIndex [sigA] (Some ''x.sig'')) (scaled_sig ''e'' []) 0
       = Some (Inr [])
   \<and> mh_len set_ops (minhash (num_sig ''n'' [7, 8])) \<noteq> 0
   \<and> mh_scaled (minhash (num_sig ''n'' [7, 8])) = 0
   \<and> Index_gather set_ops (Inr [sigA]) (Some ''x.sig'') (num_sig ''n'' [7, 8]) 0
       = Inl (ValueError ''gather requires scaled signatures'')
   \<and> counter_gather set_ops (LinearIndex [sigA] (Some ''x.sig'')) (num_sig ''n'' [7, 8]) 0
       = Some (Inl (ValueError ''gather requires scaled signatures''))"
  using gather_preconditions
          [of set_ops "scaled_sig ''e'' []" "Inr [sigA]" "Some ''x.sig''" 0 None
              "LinearIndex [sigA] (Some ''x.sig'')"]
        gather_preconditions
          [of set_ops "num_sig ''n'' [7, 8]" "Inr [sigA]" "Some ''x.sig''" 0 None
              "LinearIndex [sigA] (Some ''x.sig'')"]
  by (simp add: set_ops_def scaled_sig_def num_sig_def)

text \<open>
  C3 as stated fails: a query whose sketch uses the fixed-size policy and holds no
  hashes is answered with the empty list, not with an error, because the emptiness test
  comes first.
\<close>

theorem gather_fixed_size_counterexample:
  "mh_scaled (minhash (num_sig ''n'' [])) = 0
   \<and> mh_num (minhash (num_sig ''n'' [])) = 500
   \<and> gather set_ops (LinearIndex [sigA] (Some ''x.sig'')) (num_sig ''n'' []) 0 = Inr []
   \<and> counter_gather set_ops (LinearIndex [sigA] (Some ''x.sig'')) (num_sig ''n'' []) 0
       = Some (Inr [])"
  by (simp add: Index_gather_def Index_counter_gather_def counter_gather_def
        set_ops_def num_sig_def)

subsection \<open>Auxiliary facts: error collection and stable sorting\<close>

lemma fst_in_set_zip: "p \<in> set (zip xs ys) \<Longrightarrow> fst p \<in> set xs"
  by (cases p) (auto dest: set_zip_leftD)

lemma snd_in_set_zip: "p \<in> set (zip xs ys) \<Longrightarrow> snd p \<in> set ys"
  by (cases p) (auto dest: set_zip_rightD)

lemma collect_map_Inr: "collect (map Inr vs) = Inr vs"
  by (induction vs) auto

lemma collect_map_map_sum:
  "collect (map (\<lambda>p. map_sum id g (h p)) ps)
     = map_sum id (map g) (collect (map h ps))"
proof (induction ps)
  case Nil
  show ?case by simp
next
  case (Cons p ps)
  show ?case
  proof (cases "h p")
    case (Inl e)
    then show ?thesis by simp
  next
    case (Inr v)
    then show ?thesis using Cons
      by (cases "collect (map h ps)") auto
  qed
qed

lemma insort_key_map:
  "insort_key f (g x) (map g xs) = map g (insort_key (\<lambda>a. f (g a)) x xs)"
  by (induction xs) auto

lemma sort_key_map: "sort_key f (map g xs) = map g (sort_key (\<lambda>a. f (g a)) xs)"
  by (induction xs) (auto simp: insort_key_map)

lemma filter_key_concat_sorted:
  "filter (\<lambda>x. f x = k) (concat (map (sort_key f) xss)) = filter (\<lambda>x. f x = k) (concat xss)"
  by (induction xss) (auto simp: sort_key_stable)

lemma sort_key_concat_sorted:
  "sort_key f (concat (map (sort_key f) xss)) = sort_key f (concat xss)"
proof (rule properties_for_sort_key[symmetric])
  show "mset (sort_key f (concat (map (sort_key f) xss))) = mset (concat xss)"
    by (induction xss) auto
next
  fix k
  have "filter (\<lambda>x. f x = f k) (sort_key f (concat (map (sort_key f) xss)))
          = filter (\<lambda>x. f x = f k) (concat xss)"
    by (simp add: sort_key_stable filter_key_concat_sorted)
  then show "filter (\<lambda>x. f k = f x) (sort_key f (concat (map (sort_key f) xss)))
          = filter (\<lambda>x. f k = f x) (concat xss)"
    by (simp add: eq_commute[of "f k"])
next
  show "sorted (map f (sort_key f (concat (map (sort_key f) xss))))"
    by simp
qed

lemma sort_reverse_map:
  "(\<And>x. f (g x) = f x) \<Longrightarrow> map g (sort_reverse f xs) = sort_reverse f (map g xs)"
  by (simp add: sort_reverse_def sort_key_map rev_map)

lemma sort_reverse_concat_sorted:
  "sort_reverse f (concat (map (sort_reverse f) xss)) = sort_reverse f (concat xss)"
proof -
  have "rev (concat (map (sort_reverse f) xss))
          = concat (map (sort_key f) (map rev (rev xss)))"
    by (simp add: rev_concat sort_reverse_def rev_map comp_def)
  then have "sort_key f (rev (concat (map (sort_reverse f) xss)))
          = sort_key f (concat (map rev (rev xss)))"
    by (simp only: sort_key_concat_sorted)
  then show ?thesis
    by (simp add: sort_reverse_def rev_concat)
qed

subsection \<open>What \<open>search\<close> returns\<close>

lemma search_scan_eq:
  "search_scan f t loc sl = tagged_matches f (\<lambda>v. v \<ge> t) (map (\<lambda>ss. (ss, loc)) sl)"
  by (induction sl) (auto simp: tagged_matches_def Let_def)

lemma tagged_matches_retag:
  "tagged_matches f keep (map (\<lambda>t. (fst t, py_or src (snd t))) tagged)
     = map (retag src) (tagged_matches f keep tagged)"
  by (induction tagged) (auto simp: tagged_matches_def retag_def)

lemma tagged_matches_concat:
  "tagged_matches f keep (concat tls) = concat (map (tagged_matches f keep) tls)"
  by (induction tls) (auto simp: tagged_matches_def)

lemma fst_retag [simp]: "fst (retag src r) = fst r"
  by (simp add: retag_def)

lemma search_characterisation:
  assumes "\<not> (dc \<and> dmc)"
  shows "search ops idx query (Some t) dc dmc ia
           = map_sum id
               (\<lambda>tagged. sort_key (\<lambda>x. - fst x)
                  (tagged_matches (query_match_fn ops query dc dmc ia) (\<lambda>v. v \<ge> t) tagged))
               (tagged_signatures idx)"
proof (induction idx)
  case (LinearIndex sigs filename)
  show ?case using assms by (simp add: Index_search_def search_scan_eq)
next
  case (ZipFileLinearIndex zf sd tya)
  show ?case using assms
    by (cases "ZipFileLinearIndex_signatures zf sd tya")
       (auto simp: Index_search_def search_scan_eq comp_def)
next
  case (MultiIndex il sl)
  let ?f = "query_match_fn ops query dc dmc ia"
  let ?srt = "\<lambda>tagged. sort_key (\<lambda>x. - fst x) (tagged_matches ?f (\<lambda>v. v \<ge> t) tagged)"
  let ?tg = "\<lambda>p. map_sum id (map (\<lambda>t. (fst t, py_or (snd p) (snd t)))) (tagged_signatures (fst p))"
  have step: "map (\<lambda>p. map_sum id (map (retag (snd p))) (search ops (fst p) query (Some t) dc dmc ia))
                  (zip il sl)
              = map (\<lambda>p. map_sum id ?srt (?tg p)) (zip il sl)"
  proof (rule map_cong[OF refl])
    fix p assume "p \<in> set (zip il sl)"
    then have "fst p \<in> set il" by (metis prod.collapse set_zip_leftD)
    then have "search ops (fst p) query (Some t) dc dmc ia
                 = map_sum id ?srt (tagged_signatures (fst p))"
      by (rule MultiIndex.IH)
    then show "map_sum id (map (retag (snd p))) (search ops (fst p) query (Some t) dc dmc ia)
                 = map_sum id ?srt (?tg p)"
      by (cases "tagged_signatures (fst p)")
         (simp_all add: tagged_matches_retag sort_key_map)
  qed
  have coll: "collect (map (\<lambda>p. map_sum id ?srt (?tg p)) (zip il sl))
          = map_sum id (map ?srt) (collect (map ?tg (zip il sl)))"
    by (rule collect_map_map_sum)
  have srt: "sort_key (\<lambda>x. - fst x) (concat (map ?srt tls)) = ?srt (concat tls)" for tls
    using sort_key_concat_sorted[of "\<lambda>x. - fst x" "map (tagged_matches ?f (\<lambda>v. v \<ge> t)) tls"]
    by (simp add: tagged_matches_concat comp_def)
  show ?case
    by (cases "collect (map ?tg (zip il sl))") (simp_all add: step coll srt)
qed


lemma collect_cong_zip:
  assumes "length il = length sl"
      and "\<forall>i \<in> set il. map_sum id (map fst) (T i) = S i"
  shows "collect (map S il)
         = map_sum id (map (map fst))
             (collect (map (\<lambda>p. map_sum id (map (\<lambda>t. (fst t, g (snd p) (snd t)))) (T (fst p)))
                           (zip il sl)))"
  using assms
proof (induction il sl rule: list_induct2)
  case Nil
  show ?case by simp
next
  case (Cons i il s sl)
  from Cons.prems have hd: "S i = map_sum id (map fst) (T i)"
    by (metis list.set_intros(1))
  from Cons.prems have "\<forall>i \<in> set il. map_sum id (map fst) (T i) = S i"
    by (metis list.set_intros(2))
  then have tl: "collect (map S il)
         = map_sum id (map (map fst))
             (collect (map (\<lambda>p. map_sum id (map (\<lambda>t. (fst t, g (snd p) (snd t)))) (T (fst p)))
                           (zip il sl)))"
    by (rule Cons.IH)
  show ?case
  proof (cases "T i")
    case (Inl e)
    then show ?thesis by (simp add: hd)
  next
    case (Inr v)
    then show ?thesis
      by (cases "collect (map (\<lambda>p. map_sum id (map (\<lambda>t. (fst t, g (snd p) (snd t)))) (T (fst p)))
                         (zip il sl))") (simp_all add: hd tl comp_def id_def)
  qed
qed

lemma tagged_signatures_fst:
  "wf_index idx \<Longrightarrow> map_sum id (map fst) (tagged_signatures idx) = signatures idx"
proof (induction idx)
  case (LinearIndex sigs filename)
  show ?case by (simp add: comp_def)
next
  case (ZipFileLinearIndex zf sd tya)
  show ?case
    by (cases "ZipFileLinearIndex_signatures zf sd tya") (simp_all add: comp_def)
next
  case (MultiIndex il sl)
  then have len: "length il = length sl"
    and ih: "\<forall>i \<in> set il. map_sum id (map fst) (tagged_signatures i) = signatures i"
    by (simp, metis wf_index.simps(3))
  have eq: "collect (map signatures il)
         = map_sum id (map (map fst))
            (collect (map (\<lambda>p. map_sum id (map (\<lambda>t. (fst t, py_or (snd p) (snd t))))
                               (tagged_signatures (fst p)))
                         (zip il sl)))"
    by (rule collect_cong_zip[OF len ih])
  show ?case
    by (cases "collect (map (\<lambda>p. map_sum id (map (\<lambda>t. (fst t, py_or (snd p) (snd t))))
                               (tagged_signatures (fst p)))
                         (zip il sl))")
       (simp_all add: eq map_concat)
qed

lemma tagged_signatures_location:
  assumes "location idx = Inr loc" and "tagged_signatures idx = Inr tagged" and "p \<in> set tagged"
  shows "snd p = loc"
proof (cases idx)
  case (LinearIndex sigs filename)
  with assms show ?thesis by auto
next
  case (ZipFileLinearIndex zf sd tya)
  with assms show ?thesis
    by (cases "ZipFileLinearIndex_signatures zf sd tya") auto
next
  case (MultiIndex il sl)
  with assms show ?thesis by simp
qed

lemma sorted_wrt_sort_key_neg:
  "sorted_wrt (\<lambda>a b. fst a \<ge> fst b) (sort_key (\<lambda>x. - fst x) (xs :: result list))"
proof -
  have "sorted (map (\<lambda>x. - fst x) (sort_key (\<lambda>x. - fst x) xs))" by simp
  then show ?thesis by (simp add: sorted_map)
qed

lemma py_or_override: "src \<noteq> Some [] \<Longrightarrow> py_or src filename = override_source src filename"
  by (cases src) (simp_all add: py_or_def override_source_def)

lemma tagged_signatures_sourced:
  "recorded_sources_nonempty idx \<Longrightarrow> tagged_signatures idx = sourced_signatures idx"
proof (induction idx)
  case (LinearIndex sigs filename)
  show ?case by simp
next
  case (ZipFileLinearIndex zf sd tya)
  show ?case by simp
next
  case (MultiIndex il sl)
  have "map (\<lambda>p. map_sum id (map (\<lambda>t. (fst t, py_or (snd p) (snd t))))
                    (tagged_signatures (fst p))) (zip il sl)
        = map (\<lambda>p. map_sum id (map (\<lambda>t. (fst t, override_source (snd p) (snd t))))
                    (sourced_signatures (fst p))) (zip il sl)"
  proof (rule map_cong[OF refl])
    fix p assume p: "p \<in> set (zip il sl)"
    then have i: "fst p \<in> set il" by (rule fst_in_set_zip)
    from p have "snd p \<in> set sl" by (rule snd_in_set_zip)
    with MultiIndex.prems have "snd p \<noteq> Some []" by simp
    then have o: "py_or (snd p) f = override_source (snd p) f" for f
      by (rule py_or_override)
    from MultiIndex.prems i have "recorded_sources_nonempty (fst p)" by simp
    with MultiIndex.IH[OF i] have "tagged_signatures (fst p) = sourced_signatures (fst p)" .
    with o show "map_sum id (map (\<lambda>t. (fst t, py_or (snd p) (snd t)))) (tagged_signatures (fst p))
        = map_sum id (map (\<lambda>t. (fst t, override_source (snd p) (snd t))))
            (sourced_signatures (fst p))"
      by simp
  qed
  then show ?case by (simp only: tagged_signatures.simps sourced_signatures.simps)
qed

text \<open>
  C1, as the code has it by design. For every backend (with the constructor invariant
  of \<open>MultiIndex\<close>, and every source recorded in a \<open>MultiIndex\<close> being \<open>None\<close>
  or a string that is not empty), every query, every threshold \<open>t\<close> and flags that
  are not both set: if enumerating the index raises, \<open>search\<close> raises the same error;
  otherwise it returns exactly the enumerated signatures whose selected score is at least
  \<open>t\<close>, each with its score and its source, sorted by non-increasing score, results
  of equal score in enumeration order. The source is the index's \<open>location\<close> for
  \<open>LinearIndex\<close> and \<open>ZipFileLinearIndex\<close>; under a \<open>MultiIndex\<close>, which has no
  \<open>location\<close>, it is the source recorded for the sub-index when that is not
  \<open>None\<close>, and otherwise the source the sub-index reports.
\<close>

theorem search_results:
  assumes "wf_index idx" and "recorded_sources_nonempty idx" and "\<not> (dc \<and> dmc)"
  shows "(\<forall>e. signatures idx = Inl e \<longrightarrow> search ops idx query (Some t) dc dmc ia = Inl e)
     \<and> (\<forall>sl. signatures idx = Inr sl \<longrightarrow>
          (\<exists>sourced res.
             sourced_signatures idx = Inr sourced \<and> map fst sourced = sl
             \<and> search ops idx query (Some t) dc dmc ia = Inr res
             \<and> mset res = mset (tagged_matches (query_match_fn ops query dc dmc ia) (\<lambda>v. v \<ge> t) sourced)
             \<and> sorted_wrt (\<lambda>a b. fst a \<ge> fst b) res
             \<and> (\<forall>v. filter (\<lambda>r. fst r = v) res
                      = filter (\<lambda>r. fst r = v)
                          (tagged_matches (query_match_fn ops query dc dmc ia) (\<lambda>v. v \<ge> t) sourced))
             \<and> (\<forall>loc. location idx = Inr loc \<longrightarrow> (\<forall>p \<in> set sourced. snd p = loc))))"
proof -
  let ?tm = "tagged_matches (query_match_fn ops query dc dmc ia) (\<lambda>v. v \<ge> t)"
  have eq: "tagged_signatures idx = sourced_signatures idx"
    by (rule tagged_signatures_sourced[OF assms(2)])
  have ch: "search ops idx query (Some t) dc dmc ia
              = map_sum id (\<lambda>tagged. sort_key (\<lambda>x. - fst x) (?tm tagged)) (sourced_signatures idx)"
    using search_characterisation[OF assms(3), of ops idx query t ia] by (simp only: eq)
  have fs: "map_sum id (map fst) (sourced_signatures idx) = signatures idx"
    using tagged_signatures_fst[OF assms(1)] by (simp only: eq)
  show ?thesis
  proof (cases "sourced_signatures idx")
    case (Inl e)
    with ch fs show ?thesis by auto
  next
    case (Inr sourced)
    have st: "filter (\<lambda>r. - fst r = - v) (sort_key (\<lambda>x. - fst x) (?tm sourced))
                = filter (\<lambda>r. - fst r = - v) (?tm sourced)" for v
      by (rule sort_key_stable)
    from Inr eq have tg: "tagged_signatures idx = Inr sourced" by simp
    have loc: "\<forall>loc. location idx = Inr loc \<longrightarrow> (\<forall>p \<in> set sourced. snd p = loc)"
      using tagged_signatures_location[OF _ tg] by blast
    from Inr ch fs st loc show ?thesis
      by (auto simp: sorted_wrt_sort_key_neg)
  qed
qed

theorem search_results_witness:
  "wf_index (MultiIndex [LinearIndex [sigA, sigB, sigC] (Some ''x.sig''),
                         LinearIndex [sigD] (Some ''d.sig'')] [Some ''dir'', None])
   \<and> recorded_sources_nonempty
        (MultiIndex [LinearIndex [sigA, sigB, sigC] (Some ''x.sig''),
                     LinearIndex [sigD] (Some ''d.sig'')] [Some ''dir'', None])
   \<and> signatures (MultiIndex [LinearIndex [sigA, sigB, sigC] (Some ''x.sig''),
                              LinearIndex [sigD] (Some ''d.sig'')] [Some ''dir'', None])
       = Inr [sigA, sigB, sigC, sigD]
   \<and> sourced_signatures (MultiIndex [LinearIndex [sigA, sigB, sigC] (Some ''x.sig''),
                              LinearIndex [sigD] (Some ''d.sig'')] [Some ''dir'', None])
       = Inr [(sigA, Some ''dir''), (sigB, Some ''dir''), (sigC, Some ''dir''),
              (sigD, Some ''d.sig'')]
   \<and> (\<exists>sourced res.
         sourced_signatures (MultiIndex [LinearIndex [sigA, sigB, sigC] (Some ''x.sig''),
                              LinearIndex [sigD] (Some ''d.sig'')] [Some ''dir'', None])
           = Inr sourced
         \<and> map fst sourced = [sigA, sigB, sigC, sigD]
         \<and> search set_ops (MultiIndex [LinearIndex [sigA, sigB, sigC] (Some ''x.sig''),
                              LinearIndex [sigD] (Some ''d.sig'')] [Some ''dir'', None])
             sigQ (Some (2 / 5)) False False False = Inr res
         \<and> mset res = mset (tagged_matches (query_match_fn set_ops sigQ False False False)
                              (\<lambda>v. v \<ge> 2 / 5) sourced)
         \<and> sorted_wrt (\<lambda>a b. fst a \<ge> fst b) res)
   \<and> search set_ops (MultiIndex [LinearIndex [sigA, sigB, sigC] (Some ''x.sig''),
                              LinearIndex [sigD] (Some ''d.sig'')] [Some ''dir'', None])
             sigQ (Some (2 / 5)) False False False
       = Inr [(1 / 2, sigA, Some ''dir''), (1 / 2, sigB, Some ''dir'')]"
proof -
  let ?I = "MultiIndex [LinearIndex [sigA, sigB, sigC] (Some ''x.sig''),
                        LinearIndex [sigD] (Some ''d.sig'')] [Some ''dir'', None]"
  have w: "wf_index ?I" by simp
  have n: "recorded_sources_nonempty ?I" by simp
  have f: "\<not> (False \<and> False)" by simp
  have s: "signatures ?I = Inr [sigA, sigB, sigC, sigD]" by simp
  have so: "sourced_signatures ?I
       = Inr [(sigA, Some ''dir''), (sigB, Some ''dir''), (sigC, Some ''dir''),
              (sigD, Some ''d.sig'')]"
    by (simp add: override_source_def)
  have ev: "search set_ops ?I sigQ (Some (2 / 5)) False False False
       = Inr [(1 / 2, sigA, Some ''dir''), (1 / 2, sigB, Some ''dir'')]"
    by code_simp
  note t = search_results[OF w n f, of set_ops sigQ "2 / 5" False]
  from t[THEN conjunct2, THEN spec, THEN mp, OF s]
  obtain sourced res where
    r: "sourced_signatures ?I = Inr sourced" "map fst sourced = [sigA, sigB, sigC, sigD]"
       "search set_ops ?I sigQ (Some (2 / 5)) False False False = Inr res"
       "mset res = mset (tagged_matches (query_match_fn set_ops sigQ False False False)
                              (\<lambda>v. v \<ge> 2 / 5) sourced)"
       "sorted_wrt (\<lambda>a b. fst a \<ge> fst b) res"
    by (elim exE conjE) (rule that; assumption)
  then have "\<exists>sourced res.
         sourced_signatures ?I = Inr sourced
         \<and> map fst sourced = [sigA, sigB, sigC, sigD]
         \<and> search set_ops ?I sigQ (Some (2 / 5)) False False False = Inr res
         \<and> mset res = mset (tagged_matches (query_match_fn set_ops sigQ False False False)
                              (\<lambda>v. v \<ge> 2 / 5) sourced)
         \<and> sorted_wrt (\<lambda>a b. fst a \<ge> fst b) res"
    by (intro exI conjI)
  with w n s so ev show ?thesis by (intro conjI)
qed

text \<open>
  C1 as stated fails for \<open>MultiIndex\<close>: the result carries the source recorded for
  the sub-index, which is neither the location of the sub-index nor an attribute of the
  \<open>MultiIndex\<close>.
\<close>

theorem search_multi_source_counterexample:
  "search set_ops (MultiIndex [LinearIndex [sigA] (Some ''a.sig'')] [Some ''dir''])
       sigQ (Some 0) False False False
     = Inr [(1 / 2, sigA, Some ''dir'')]
   \<and> location (LinearIndex [sigA] (Some ''a.sig'')) = Inr (Some ''a.sig'')
   \<and> location (MultiIndex [LinearIndex [sigA] (Some ''a.sig'')] [Some ''dir''])
     = Inl (AttributeError ''MultiIndex object has no attribute location'')"
  by (simp add: Index_search_def query_match_fn_def set_ops_def sigA_def sigQ_def
        scaled_sig_def overlap_def ratio_def retag_def py_or_def)

subsection \<open>What \<open>gather\<close> returns\<close>

lemma collect_map_const_Inr: "collect (map (\<lambda>p. Inr (g p)) ps) = Inr (map g ps)"
  by (induction ps) auto

lemma concat_map_Nil: "concat (map (\<lambda>p. []) ps) = []"
  by (induction ps) auto

lemma gather_scan_eq:
  "gather_scan ops query thr loc sl
     = tagged_matches (\<lambda>ss. mh_contained_by ops (minhash query) (minhash ss))
         (\<lambda>v. v \<noteq> 0 \<and> v \<ge> thr) (map (\<lambda>ss. (ss, loc)) sl)"
  by (induction sl) (auto simp: tagged_matches_def Let_def)

lemma gather_key_retag [simp]: "gather_key ops (retag src r) = gather_key ops r"
  by (simp add: gather_key_def retag_def)

lemma sort_reverse_Nil [simp]: "sort_reverse f [] = []"
  by (simp add: sort_reverse_def)

lemma Index_gather_eq:
  assumes "mh_len ops (minhash query) \<noteq> 0" and "mh_scaled (minhash query) \<noteq> 0"
  shows "Index_gather ops sigs loc query threshold_bp
     = (if threshold_bp / real_of_int (mh_scaled (minhash query))
              / real (mh_len ops (minhash query)) > 1
        then Inr []
        else map_sum id
               (\<lambda>sl. sort_reverse (gather_key ops)
                  (gather_scan ops query
                     (threshold_bp / real_of_int (mh_scaled (minhash query))
                        / real (mh_len ops (minhash query))) loc sl))
               sigs)"
  using assms by (cases sigs) (auto simp: Index_gather_def Let_def)

lemma gather_characterisation:
  assumes "mh_len ops (minhash query) \<noteq> 0" and "mh_scaled (minhash query) \<noteq> 0"
  shows "gather ops idx query threshold_bp
     = (if threshold_bp / real_of_int (mh_scaled (minhash query))
              / real (mh_len ops (minhash query)) > 1
        then Inr []
        else map_sum id
               (\<lambda>tagged. sort_reverse (gather_key ops)
                  (tagged_matches (\<lambda>ss. mh_contained_by ops (minhash query) (minhash ss))
                     (\<lambda>v. v \<noteq> 0 \<and> v \<ge> threshold_bp / real_of_int (mh_scaled (minhash query))
                              / real (mh_len ops (minhash query)))
                     tagged))
               (tagged_signatures idx))"
proof -
  define thr where "thr = threshold_bp / real_of_int (mh_scaled (minhash query))
                / real (mh_len ops (minhash query))"
  define tm where "tm = tagged_matches (\<lambda>ss. mh_contained_by ops (minhash query) (minhash ss))
               (\<lambda>v. v \<noteq> 0 \<and> v \<ge> thr)"
  define srt where "srt = (\<lambda>tagged. sort_reverse (gather_key ops) (tm tagged))"
  define tg where "tg = (\<lambda>p. map_sum id (map (\<lambda>t. (fst t, py_or (snd p) (snd t))))
                               (tagged_signatures (fst p)))"
  have base: "Index_gather ops sigs loc query threshold_bp
     = (if thr > 1 then Inr []
        else map_sum id (\<lambda>sl. srt (map (\<lambda>ss. (ss, loc)) sl)) sigs)" for sigs loc
    unfolding thr_def srt_def tm_def gather_scan_eq[symmetric]
    by (rule Index_gather_eq[OF assms])
  have "gather ops idx query threshold_bp
          = (if thr > 1 then Inr [] else map_sum id srt (tagged_signatures idx))"
  proof (induction idx)
    case (LinearIndex sigs filename)
    show ?case by (simp add: base)
  next
    case (ZipFileLinearIndex zf sd tya)
    show ?case
      by (cases "ZipFileLinearIndex_signatures zf sd tya") (simp_all add: base)
  next
    case (MultiIndex il sl)
    show ?case
    proof (cases "thr > 1")
      case True
      have eq: "map (\<lambda>p. map_sum id (map (retag (snd p))) (gather ops (fst p) query threshold_bp))
                (zip il sl)
            = map (\<lambda>p. Inr []) (zip il sl)"
      proof (rule map_cong[OF refl])
        fix p assume "p \<in> set (zip il sl)"
        then have "fst p \<in> set il" by (metis prod.collapse set_zip_leftD)
        then have "gather ops (fst p) query threshold_bp = Inr []"
          using MultiIndex.IH True by simp
        then show "map_sum id (map (retag (snd p))) (gather ops (fst p) query threshold_bp) = Inr []"
          by simp
      qed
      have "gather ops (MultiIndex il sl) query threshold_bp
              = (case collect (map (\<lambda>p. Inr []) (zip il sl)) of
                   Inl e \<Rightarrow> Inl e
                 | Inr rs \<Rightarrow> Inr (sort_reverse (gather_key ops) (concat rs)))"
        by (simp only: gather.simps eq)
      then show ?thesis using True by (simp add: collect_map_const_Inr concat_map_Nil)
    next
      case False
      have step: "map (\<lambda>p. map_sum id (map (retag (snd p))) (gather ops (fst p) query threshold_bp))
                    (zip il sl)
                = map (\<lambda>p. map_sum id srt (tg p)) (zip il sl)"
      proof (rule map_cong[OF refl])
        fix p assume "p \<in> set (zip il sl)"
        then have "fst p \<in> set il" by (metis prod.collapse set_zip_leftD)
        then have "gather ops (fst p) query threshold_bp
                     = map_sum id srt (tagged_signatures (fst p))"
          using MultiIndex.IH False by simp
        then show "map_sum id (map (retag (snd p))) (gather ops (fst p) query threshold_bp)
                     = map_sum id srt (tg p)"
          by (cases "tagged_signatures (fst p)")
             (simp_all add: tg_def srt_def tm_def tagged_matches_retag sort_reverse_map)
      qed
      have coll: "collect (map (\<lambda>p. map_sum id srt (tg p)) (zip il sl))
              = map_sum id (map srt) (collect (map tg (zip il sl)))"
        by (rule collect_map_map_sum)
      have srt: "sort_reverse (gather_key ops) (concat (map srt tls)) = srt (concat tls)" for tls
        using sort_reverse_concat_sorted[of "gather_key ops" "map tm tls"]
        by (simp add: srt_def tm_def tagged_matches_concat comp_def)
      have "gather ops (MultiIndex il sl) query threshold_bp
              = (case map_sum id (map srt) (collect (map tg (zip il sl))) of
                   Inl e \<Rightarrow> Inl e
                 | Inr rs \<Rightarrow> Inr (sort_reverse (gather_key ops) (concat rs)))"
        by (simp only: gather.simps step coll)
      also have "\<dots> = map_sum id srt (map_sum id concat (collect (map tg (zip il sl))))"
        by (cases "collect (map tg (zip il sl))") (simp_all add: srt)
      finally show ?thesis using False by (simp add: tg_def)
    qed
  qed
  then show ?thesis by (simp only: thr_def srt_def tm_def)
qed


lemma mset_sort_reverse [simp]: "mset (sort_reverse f xs) = mset xs"
  by (simp add: sort_reverse_def)

lemma tagged_matches_untag:
  "map (\<lambda>r. (fst r, fst (snd r))) (tagged_matches f keep tagged)
     = map (\<lambda>ss. (f ss, ss)) (filter (\<lambda>ss. keep (f ss)) (map fst tagged))"
  by (induction tagged) (auto simp: tagged_matches_def)

lemma gather_results_exact:
  assumes ch: "g = (if (thr::real) > 1 then Inr []
        else map_sum id
               (\<lambda>tagged. sort_reverse (gather_key ops)
                  (tagged_matches cont (\<lambda>v. v \<noteq> 0 \<and> v \<ge> thr) tagged))
               T)"
    and fs: "map_sum id (map fst) T = S"
  shows "(thr > 1 \<longrightarrow> g = Inr [])
          \<and> (\<not> thr > 1 \<longrightarrow>
               (\<forall>e. S = Inl e \<longrightarrow> g = Inl e)
             \<and> (\<forall>sl. S = Inr sl \<longrightarrow>
                  (\<exists>res. g = Inr res
                     \<and> mset (map (\<lambda>r. (fst r, fst (snd r))) res)
                         = mset (map (\<lambda>ss. (cont ss, ss))
                                  (filter (\<lambda>ss. cont ss \<noteq> 0 \<and> cont ss \<ge> thr) sl)))))"
proof (cases "thr > 1")
  case True
  with ch show ?thesis by simp
next
  case False
  show ?thesis
  proof (cases T)
    case (Inl e)
    with fs have "S = Inl e" by auto
    moreover from Inl ch False have "g = Inl e" by simp
    ultimately show ?thesis using False by simp
  next
    case (Inr tagged)
    with fs have sl: "S = Inr (map fst tagged)" by auto
    from Inr ch False
    have g: "g = Inr (sort_reverse (gather_key ops)
                  (tagged_matches cont (\<lambda>v. v \<noteq> 0 \<and> v \<ge> thr) tagged))"
      by simp
    have "mset (map (\<lambda>r. (fst r, fst (snd r)))
                  (sort_reverse (gather_key ops)
                     (tagged_matches cont (\<lambda>v. v \<noteq> 0 \<and> v \<ge> thr) tagged)))
            = mset (map (\<lambda>r. (fst r, fst (snd r)))
                     (tagged_matches cont (\<lambda>v. v \<noteq> 0 \<and> v \<ge> thr) tagged))"
      by (simp only: mset_map mset_sort_reverse)
    also have "\<dots> = mset (map (\<lambda>ss. (cont ss, ss))
                      (filter (\<lambda>ss. cont ss \<noteq> 0 \<and> cont ss \<ge> thr) (map fst tagged)))"
      by (simp only: tagged_matches_untag)
    finally have ms: "mset (map (\<lambda>r. (fst r, fst (snd r)))
                  (sort_reverse (gather_key ops)
                     (tagged_matches cont (\<lambda>v. v \<noteq> 0 \<and> v \<ge> thr) tagged)))
            = mset (map (\<lambda>ss. (cont ss, ss))
                      (filter (\<lambda>ss. cont ss \<noteq> 0 \<and> cont ss \<ge> thr) (map fst tagged)))" .
    show ?thesis
    proof (intro conjI impI allI)
      assume "1 < thr" with False show "g = Inr []" by simp
    next
      fix e assume "S = Inl e" with sl show "g = Inl e" by simp
    next
      fix sl' assume "S = Inr sl'"
      with sl have "sl' = map fst tagged" by simp
      with g ms show "\<exists>res. g = Inr res
                     \<and> mset (map (\<lambda>r. (fst r, fst (snd r))) res)
                         = mset (map (\<lambda>ss. (cont ss, ss))
                                  (filter (\<lambda>ss. cont ss \<noteq> 0 \<and> cont ss \<ge> thr) sl'))"
        by blast
    qed
  qed
qed


text \<open>
  C4. For a query whose sketch is scaled and not empty, \<open>gather\<close> works with
  \<open>n_threshold_hashes = threshold_bp / scaled\<close> and
  \<open>threshold = n_threshold_hashes / len(query.minhash)\<close>: when the threshold exceeds 1
  it returns the empty list (without enumerating), and otherwise, when the enumeration
  succeeds, it returns exactly the signatures whose containment
  \<open>query.minhash.contained_by(ss.minhash)\<close> is nonzero and at least the threshold,
  each with that containment (an enumeration error is raised unchanged). This holds for
  every backend.
\<close>

theorem gather_threshold_and_matches:
  assumes "wf_index idx"
      and "mh_len ops (minhash query) \<noteq> 0" and "mh_scaled (minhash query) \<noteq> 0"
  shows "let n_threshold_hashes = threshold_bp / real_of_int (mh_scaled (minhash query));
             threshold = n_threshold_hashes / real (mh_len ops (minhash query));
             cont = (\<lambda>ss. mh_contained_by ops (minhash query) (minhash ss))
         in (threshold > 1 \<longrightarrow> gather ops idx query threshold_bp = Inr [])
          \<and> (\<not> threshold > 1 \<longrightarrow>
               (\<forall>e. signatures idx = Inl e \<longrightarrow> gather ops idx query threshold_bp = Inl e)
             \<and> (\<forall>sl. signatures idx = Inr sl \<longrightarrow>
                  (\<exists>res. gather ops idx query threshold_bp = Inr res
                     \<and> mset (map (\<lambda>r. (fst r, fst (snd r))) res)
                         = mset (map (\<lambda>ss. (cont ss, ss))
                                  (filter (\<lambda>ss. cont ss \<noteq> 0 \<and> cont ss \<ge> threshold) sl)))))"
  unfolding Let_def
  by (rule gather_results_exact
        [OF gather_characterisation[OF assms(2,3)] tagged_signatures_fst[OF assms(1)]])


theorem gather_threshold_and_matches_witness:
  "wf_index (LinearIndex [sigA, sigB, sigC] (Some ''x.sig''))
   \<and> mh_len set_ops (minhash sigQ) \<noteq> 0 \<and> mh_scaled (minhash sigQ) \<noteq> 0
   \<and> signatures (LinearIndex [sigA, sigB, sigC] (Some ''x.sig'')) = Inr [sigA, sigB, sigC]
   \<and> \<not> (2500 / real_of_int (mh_scaled (minhash sigQ)) / real (mh_len set_ops (minhash sigQ)) > 1)
   \<and> (\<exists>res. gather set_ops (LinearIndex [sigA, sigB, sigC] (Some ''x.sig'')) sigQ 2500 = Inr res
         \<and> mset (map (\<lambda>r. (fst r, fst (snd r))) res)
             = mset (map (\<lambda>ss. (mh_contained_by set_ops (minhash sigQ) (minhash ss), ss))
                      (filter (\<lambda>ss. mh_contained_by set_ops (minhash sigQ) (minhash ss) \<noteq> 0
                                 \<and> mh_contained_by set_ops (minhash sigQ) (minhash ss)
                                     \<ge> 2500 / real_of_int (mh_scaled (minhash sigQ))
                                          / real (mh_len set_ops (minhash sigQ)))
                         [sigA, sigB, sigC])))
   \<and> 7000 / real_of_int (mh_scaled (minhash sigQ)) / real (mh_len set_ops (minhash sigQ)) > 1
   \<and> gather set_ops (LinearIndex [sigA, sigB, sigC] (Some ''x.sig'')) sigQ 7000 = Inr []"
proof -
  have h1: "wf_index (LinearIndex [sigA, sigB, sigC] (Some ''x.sig''))" by simp
  have h2: "mh_len set_ops (minhash sigQ) \<noteq> 0"
    by (simp add: set_ops_def sigQ_def scaled_sig_def)
  have h3: "mh_scaled (minhash sigQ) \<noteq> 0"
    by (simp add: sigQ_def scaled_sig_def)
  have s: "signatures (LinearIndex [sigA, sigB, sigC] (Some ''x.sig'')) = Inr [sigA, sigB, sigC]"
    by simp
  have lo: "\<not> (2500 / real_of_int (mh_scaled (minhash sigQ))
                 / real (mh_len set_ops (minhash sigQ)) > 1)"
    by (simp add: set_ops_def sigQ_def scaled_sig_def)
  have hi: "7000 / real_of_int (mh_scaled (minhash sigQ))
                 / real (mh_len set_ops (minhash sigQ)) > 1"
    by (simp add: set_ops_def sigQ_def scaled_sig_def)
  note t1 = gather_threshold_and_matches[OF h1 h2 h3, of 2500, unfolded Let_def]
  note t2 = gather_threshold_and_matches[OF h1 h2 h3, of 7000, unfolded Let_def]
  from t1 lo s have a: "\<exists>res. gather set_ops (LinearIndex [sigA, sigB, sigC] (Some ''x.sig'')) sigQ 2500 = Inr res
         \<and> mset (map (\<lambda>r. (fst r, fst (snd r))) res)
             = mset (map (\<lambda>ss. (mh_contained_by set_ops (minhash sigQ) (minhash ss), ss))
                      (filter (\<lambda>ss. mh_contained_by set_ops (minhash sigQ) (minhash ss) \<noteq> 0
                                 \<and> mh_contained_by set_ops (minhash sigQ) (minhash ss)
                                     \<ge> 2500 / real_of_int (mh_scaled (minhash sigQ))
                                          / real (mh_len set_ops (minhash sigQ)))
                         [sigA, sigB, sigC]))"
    by blast
  from t2 hi have b: "gather set_ops (LinearIndex [sigA, sigB, sigC] (Some ''x.sig'')) sigQ 7000 = Inr []"
    by blast
  from h1 h2 h3 s lo a hi b show ?thesis by blast
qed

subsection \<open>Ordering of the results of \<open>gather\<close> and \<open>counter_gather\<close>\<close>

lemma sorted_wrt_sort_reverse: "sorted_wrt (\<lambda>a b. f a \<ge> f b) (sort_reverse f xs)"
proof -
  have "sorted (map f (sort_key f (rev xs)))" by simp
  then have "sorted_wrt (\<lambda>a b. f a \<le> f b) (sort_key f (rev xs))"
    by (simp add: sorted_map)
  then show ?thesis
    by (simp add: sort_reverse_def sorted_wrt_rev)
qed

lemma gather_order_key: "gather_order ops a b \<longleftrightarrow> gather_key ops b \<le> gather_key ops a"
  by (auto simp: gather_order_def gather_key_def less_eq_prod_def)

lemma sorted_gather_order: "sorted_wrt (gather_order ops) (sort_reverse (gather_key ops) xs)"
  using sorted_wrt_sort_reverse[of "gather_key ops" xs]
  by (simp add: gather_order_key[abs_def])

lemma Index_gather_sorted:
  "Index_gather ops sigs loc query threshold_bp = Inr res \<Longrightarrow> sorted_wrt (gather_order ops) res"
  by (auto simp: Index_gather_def Let_def sorted_gather_order split: if_splits sum.splits)

lemma gather_sorted:
  "gather ops idx query threshold_bp = Inr res \<Longrightarrow> sorted_wrt (gather_order ops) res"
proof (cases idx)
  case (LinearIndex sigs filename)
  then show "gather ops idx query threshold_bp = Inr res \<Longrightarrow> ?thesis"
    by (simp add: Index_gather_sorted)
next
  case (ZipFileLinearIndex zf sd tya)
  then show "gather ops idx query threshold_bp = Inr res \<Longrightarrow> ?thesis"
    by (simp add: Index_gather_sorted)
next
  case (MultiIndex il sl)
  then show "gather ops idx query threshold_bp = Inr res \<Longrightarrow> ?thesis"
    by (auto simp: sorted_gather_order split: sum.splits)
qed

lemma Index_counter_gather_sorted:
  "Index_counter_gather ops sigs filename query threshold_bp = Some (Inr res)
     \<Longrightarrow> sorted_wrt (gather_order ops) res"
  by (auto simp: Index_counter_gather_def Let_def sorted_gather_order
           split: if_splits sum.splits)

subsection \<open>The greedy loop of \<open>counter_gather\<close>\<close>

text \<open>
  An invariant of the loop state that every iteration preserves holds when the loop
  returns.
\<close>

lemma greedy_loop_rule:
  assumes run: "greedy_loop ops query sigs fn n thr c ms results = Some out"
      and step: "\<And>c results. I c results \<Longrightarrow> c \<noteq> []
                   \<Longrightarrow> n \<le> real_of_int (snd (hd (most_common c)))
                   \<Longrightarrow> I (fst (greedy_step ops query sigs fn thr c results))
                         (snd (greedy_step ops query sigs fn thr c results))"
      and init: "I c results"
      and fin: "\<And>c results. I c results \<Longrightarrow> I' results"
  shows "I' out"
proof -
  have "ops = ops \<and> query = query \<and> sigs = sigs \<and> fn = fn \<and> n = n \<and> thr = thr
          \<longrightarrow> I c results \<longrightarrow> I' out"
  proof (rule greedy_loop.raw_induct
      [where P = "\<lambda>ops' query' sigs' fn' n' thr' c ms results out.
                    ops' = ops \<and> query' = query \<and> sigs' = sigs \<and> fn' = fn \<and> n' = n \<and> thr' = thr
                      \<longrightarrow> I c results \<longrightarrow> I' out", OF _ run])
    fix f ops' query' sigs' fn' n' thr' c ms results out
    assume IH: "\<And>ops' query' sigs' fn' n' thr' c ms results out.
               f ops' query' sigs' fn' n' thr' c ms results = Some out \<Longrightarrow>
               ops' = ops \<and> query' = query \<and> sigs' = sigs \<and> fn' = fn \<and> n' = n \<and> thr' = thr
                      \<longrightarrow> I c results \<longrightarrow> I' out"
      and body: "(if c \<noteq> [] \<and> n' \<le> ms
        then let size = snd (hd (most_common c))
             in if n' \<le> real_of_int size
                then f ops' query' sigs' fn' n' thr'
                      (fst (greedy_step ops' query' sigs' fn' thr' c results))
                      (real_of_int size)
                      (snd (greedy_step ops' query' sigs' fn' thr' c results))
                else Some results
        else Some results) = Some out"
    show "ops' = ops \<and> query' = query \<and> sigs' = sigs \<and> fn' = fn \<and> n' = n \<and> thr' = thr
                      \<longrightarrow> I c results \<longrightarrow> I' out"
    proof (intro impI, elim conjE)
      assume eqs: "ops' = ops" "query' = query" "sigs' = sigs" "fn' = fn" "n' = n" "thr' = thr"
        and inv: "I c results"
      show "I' out"
      proof (cases "c \<noteq> [] \<and> n \<le> ms \<and> n \<le> real_of_int (snd (hd (most_common c)))")
        case True
        with body eqs have
          "f ops query sigs fn n thr
              (fst (greedy_step ops query sigs fn thr c results))
              (real_of_int (snd (hd (most_common c))))
              (snd (greedy_step ops query sigs fn thr c results)) = Some out"
          by (simp add: Let_def)
        moreover have "I (fst (greedy_step ops query sigs fn thr c results))
                         (snd (greedy_step ops query sigs fn thr c results))"
          using step[OF inv] True by simp
        ultimately show ?thesis using IH by blast
      next
        case False
        with body eqs have "out = results"
          by (auto simp: Let_def split: if_splits)
        with inv fin show ?thesis by blast
      qed
    qed
  qed
  with init show ?thesis by simp
qed


lemma snd_greedy_step:
  "snd (greedy_step ops query sigs fn thr c results)
     = (let match = sigs ! fst (hd (most_common c));
            cont = mh_contained_by ops (minhash query) (minhash match)
        in if cont \<noteq> 0 \<and> cont \<ge> thr then results @ [(cont, match, fn)] else results)"
  by (simp add: greedy_step_def Let_def)

lemma fst_greedy_step:
  "fst (greedy_step ops query sigs fn thr c results)
     = fold (decrement ops sigs (sigs ! fst (hd (most_common c))))
         (map fst (most_common c)) (AList.delete (fst (hd (most_common c))) c)"
  by (simp add: greedy_step_def Let_def)

lemma greedy_loop_sources:
  assumes "greedy_loop ops query sigs fn n thr c ms results = Some out"
      and "\<forall>r \<in> set results. snd (snd r) = fn"
  shows "\<forall>r \<in> set out. snd (snd r) = fn"
  by (rule greedy_loop_rule[OF assms(1), where I = "\<lambda>c results. \<forall>r \<in> set results. snd (snd r) = fn"])
     (auto simp: snd_greedy_step Let_def assms(2))

lemma set_most_common [simp]: "set (most_common c) = set c"
  by (simp add: most_common_def sort_reverse_def)

lemma most_common_Nil [simp]: "most_common c = [] \<longleftrightarrow> c = []"
  by (metis set_most_common set_empty)

lemma hd_most_common_in: "c \<noteq> [] \<Longrightarrow> hd (most_common c) \<in> set c"
  by (metis most_common_Nil set_most_common list.set_sel(1))

lemma max_most_common:
  assumes "e \<in> set c"
  shows "snd e \<le> snd (hd (most_common c))"
proof -
  have srt: "sorted_wrt (\<lambda>a b. snd a \<ge> snd b) (most_common c)"
    unfolding most_common_def by (rule sorted_wrt_sort_reverse)
  from assms have ne: "most_common c \<noteq> []" by auto
  then obtain t rest where mc: "most_common c = t # rest" by (cases "most_common c") auto
  from assms have "e \<in> set (most_common c)" by simp
  with mc srt show ?thesis by auto
qed

lemma last_filter_last:
  "xs \<noteq> [] \<Longrightarrow> P (last xs) \<Longrightarrow> last (filter P xs) = last xs"
  by (induction xs rule: rev_induct) auto

lemma hd_most_common_first:
  assumes "c \<noteq> []"
  shows "hd (most_common c) = hd (filter (\<lambda>e. snd e = snd (hd (most_common c))) c)"
proof -
  define s where "s = sort_key snd (rev c)"
  define M where "M = snd (hd (most_common c))"
  from assms have sne: "s \<noteq> []" by (metis s_def length_sort length_rev length_0_conv)
  have top: "hd (most_common c) = last s"
    using sne by (simp add: most_common_def sort_reverse_def s_def hd_rev)
  then have "snd (last s) = M" by (simp add: M_def)
  then have "last (filter (\<lambda>e. snd e = M) s) = last s"
    using sne by (simp add: last_filter_last)
  moreover have "filter (\<lambda>e. snd e = M) s = filter (\<lambda>e. snd e = M) (rev c)"
    unfolding s_def by (rule sort_key_stable)
  moreover have "filter (\<lambda>e. snd e = M) c \<noteq> []"
    using hd_most_common_in[OF assms] by (auto simp: M_def filter_empty_conv)
  ultimately have "last s = hd (filter (\<lambda>e. snd e = M) c)"
    by (simp add: rev_filter[symmetric] last_rev)
  with top show ?thesis by (simp add: M_def)
qed

lemma hd_filter_split:
  "filter P xs \<noteq> [] \<Longrightarrow>
     \<exists>pre post. xs = pre @ hd (filter P xs) # post \<and> (\<forall>e \<in> set pre. \<not> P e)"
proof (induction xs)
  case Nil
  then show ?case by simp
next
  case (Cons x xs)
  show ?case
  proof (cases "P x")
    case True
    then have "x # xs = [] @ hd (filter P (x # xs)) # xs" by simp
    then show ?thesis by (metis empty_iff list.set(1))
  next
    case False
    with Cons.prems have "filter P xs \<noteq> []" by simp
    from Cons.IH[OF this] obtain pre post
      where "xs = pre @ hd (filter P xs) # post" "\<forall>e \<in> set pre. \<not> P e" by blast
    with False have "x # xs = (x # pre) @ hd (filter P (x # xs)) # post
        \<and> (\<forall>e \<in> set (x # pre). \<not> P e)" by simp
    then show ?thesis by blast
  qed
qed

lemma most_common_selection:
  assumes "c \<noteq> []"
  shows "\<exists>pre post. c = pre @ hd (most_common c) # post
           \<and> (\<forall>e \<in> set pre. snd e < snd (hd (most_common c)))
           \<and> (\<forall>e \<in> set post. snd e \<le> snd (hd (most_common c)))"
proof -
  let ?top = "hd (most_common c)"
  let ?P = "\<lambda>e. snd e = snd ?top"
  have ne: "filter ?P c \<noteq> []"
    using hd_most_common_in[OF assms] by (auto simp: filter_empty_conv)
  from hd_filter_split[OF ne] hd_most_common_first[OF assms]
  obtain pre post where sp: "c = pre @ ?top # post" and pre: "\<forall>e \<in> set pre. snd e \<noteq> snd ?top"
    by metis
  have le: "\<And>e. e \<in> set c \<Longrightarrow> snd e \<le> snd ?top" by (rule max_most_common)
  have "\<forall>e \<in> set pre. snd e < snd ?top"
  proof
    fix e assume e: "e \<in> set pre"
    with sp have "e \<in> set c" by (metis in_set_conv_decomp append_assoc append_Cons)
    with le have "snd e \<le> snd ?top" by blast
    with pre e show "snd e < snd ?top" by fastforce
  qed
  moreover have "\<forall>e \<in> set post. snd e \<le> snd ?top"
  proof
    fix e assume "e \<in> set post"
    with sp have "e \<in> set c" by (metis Un_iff list.set_intros(2) set_append)
    with le show "snd e \<le> snd ?top" by blast
  qed
  ultimately show ?thesis using sp by blast
qed

subsection \<open>Termination of the greedy loop\<close>

text \<open>
  When no overlap count is negative and the hash threshold is not negative, every
  iteration lowers the number of candidates whose stored count is not negative: the
  chosen one had such a count and is left either absent or with a negative count, and no
  other count grows. So the loop returns.
\<close>

lemma nonneg_delete_le:
  "length (filter P (AList.delete k c)) \<le> length (filter P c)"
  by (induction c) auto

lemma nonneg_delete_less:
  "e \<in> set c \<Longrightarrow> P e \<Longrightarrow> length (filter P (AList.delete (fst e) c)) < length (filter P c)"
proof (induction c)
  case Nil
  then show ?case by simp
next
  case (Cons x c)
  show ?case
  proof (cases "x = e")
    case True
    with Cons.prems show ?thesis
      using nonneg_delete_le[of P "fst e" c] by (cases e) auto
  next
    case False
    with Cons.prems have "e \<in> set c" by simp
    from Cons.IH[OF this Cons.prems(2)] show ?thesis by (cases x) auto
  qed
qed

lemma nonneg_update_le:
  "v \<le> counter_get c k \<Longrightarrow> v \<noteq> 0
     \<Longrightarrow> length (filter (\<lambda>e. 0 \<le> snd e) (AList.update k v c))
           \<le> length (filter (\<lambda>e. 0 \<le> snd e) c)"
proof (induction c)
  case Nil
  then show ?case by (simp add: counter_get_def)
next
  case (Cons x c)
  show ?case
  proof (cases "fst x = k")
    case True
    with Cons.prems show ?thesis by (cases x) (auto simp: counter_get_def)
  next
    case False
    with Cons.prems have "v \<le> counter_get c k" by (cases x) (auto simp: counter_get_def)
    from Cons.IH[OF this Cons.prems(2)] False show ?thesis by (cases x) auto
  qed
qed

lemma nonneg_decrement_le:
  assumes "\<forall>a b. 0 \<le> count_common ops a b"
  shows "length (filter (\<lambda>e. 0 \<le> snd e) (decrement ops sigs match k c))
           \<le> length (filter (\<lambda>e. 0 \<le> snd e) c)"
proof -
  define v where "v = counter_get c k - count_common ops (minhash (sigs ! k)) (minhash match)"
  have get: "counter_get (AList.update k v c) k = v"
    by (simp add: counter_get_def update_conv')
  have le: "v \<le> counter_get c k" using assms by (simp add: v_def)
  show ?thesis
  proof (cases "v = 0")
    case True
    then have "decrement ops sigs match k c = AList.delete k c"
      using get by (simp add: decrement_def Let_def v_def[symmetric] delete_update_same)
    then show ?thesis by (simp add: nonneg_delete_le)
  next
    case False
    then have "decrement ops sigs match k c = AList.update k v c"
      using get by (simp add: decrement_def Let_def v_def[symmetric])
    then show ?thesis using nonneg_update_le[OF le False] by simp
  qed
qed

lemma nonneg_fold_decrement_le:
  assumes "\<forall>a b. 0 \<le> count_common ops a b"
  shows "length (filter (\<lambda>e. 0 \<le> snd e) (fold (decrement ops sigs match) ks c))
           \<le> length (filter (\<lambda>e. 0 \<le> snd e) c)"
proof (induction ks arbitrary: c)
  case Nil
  show ?case by simp
next
  case (Cons k ks)
  have "length (filter (\<lambda>e. 0 \<le> snd e) (fold (decrement ops sigs match) ks (decrement ops sigs match k c)))
          \<le> length (filter (\<lambda>e. 0 \<le> snd e) (decrement ops sigs match k c))"
    by (rule Cons.IH)
  also have "\<dots> \<le> length (filter (\<lambda>e. 0 \<le> snd e) c)"
    by (rule nonneg_decrement_le[OF assms])
  finally show ?case by simp
qed

lemma greedy_step_decreases:
  assumes "\<forall>a b. 0 \<le> count_common ops a b"
      and "c \<noteq> []" and "0 \<le> snd (hd (most_common c))"
  shows "length (filter (\<lambda>e. 0 \<le> snd e) (fst (greedy_step ops query sigs fn thr c results)))
           < length (filter (\<lambda>e. 0 \<le> snd e) c)"
proof -
  let ?top = "hd (most_common c)"
  have "length (filter (\<lambda>e. 0 \<le> snd e) (fst (greedy_step ops query sigs fn thr c results)))
          \<le> length (filter (\<lambda>e. 0 \<le> snd e) (AList.delete (fst ?top) c))"
    unfolding fst_greedy_step by (rule nonneg_fold_decrement_le[OF assms(1)])
  also have "\<dots> < length (filter (\<lambda>e. 0 \<le> snd e) c)"
    by (rule nonneg_delete_less[where P = "\<lambda>e. 0 \<le> snd e",
          OF hd_most_common_in[OF assms(2)] assms(3)])
  finally show ?thesis .
qed

lemma greedy_loop_terminates:
  assumes cc: "\<forall>a b. 0 \<le> count_common ops a b" and n: "0 \<le> n"
  shows "\<exists>out. greedy_loop ops query sigs fn n thr c ms results = Some out"
proof (induction "length (filter (\<lambda>e. 0 \<le> snd e) c)" arbitrary: c ms results rule: less_induct)
  case less
  show ?case
  proof (cases "c \<noteq> [] \<and> n \<le> ms \<and> n \<le> real_of_int (snd (hd (most_common c)))")
    case True
    with n have "0 \<le> snd (hd (most_common c))" by linarith
    with True have "length (filter (\<lambda>e. 0 \<le> snd e) (fst (greedy_step ops query sigs fn thr c results)))
           < length (filter (\<lambda>e. 0 \<le> snd e) c)"
      using greedy_step_decreases[OF cc] by blast
    from less[OF this] obtain out where
      "greedy_loop ops query sigs fn n thr (fst (greedy_step ops query sigs fn thr c results))
          (real_of_int (snd (hd (most_common c))))
          (snd (greedy_step ops query sigs fn thr c results)) = Some out"
      by blast
    with True have "greedy_loop ops query sigs fn n thr c ms results = Some out"
      by (subst greedy_loop.simps) (simp add: Let_def)
    then show ?thesis by blast
  next
    case False
    then have "greedy_loop ops query sigs fn n thr c ms results = Some results"
      by (subst greedy_loop.simps) (auto simp: Let_def)
    then show ?thesis by blast
  qed
qed

lemma Index_counter_gather_returns:
  assumes "\<forall>a b. 0 \<le> count_common ops a b"
      and "0 \<le> threshold_bp" and "0 \<le> mh_scaled (minhash query)"
  shows "\<exists>r. Index_counter_gather ops sigs filename query threshold_bp = Some r"
proof -
  have "0 \<le> threshold_bp / real_of_int (mh_scaled (minhash query))"
    using assms(2,3) by simp
  then have n: "0 \<le> (if threshold_bp \<noteq> 0
                       then threshold_bp / real_of_int (mh_scaled (minhash query)) else 0)"
    by simp
  show ?thesis
    using greedy_loop_terminates[OF assms(1) n]
    unfolding Index_counter_gather_def Let_def
    by (auto split: sum.splits)
qed

text \<open>
  C5. For every index and query, a list returned by \<open>gather\<close> or by
  \<open>counter_gather\<close> is in descending lexicographic order of the pair
  (containment, fingerprint): a larger containment comes first, and among equal
  containments the lexicographically larger fingerprint comes first. With overlap counts
  that are not negative and a threshold that is not negative, \<open>counter_gather\<close> does
  return.
\<close>

theorem gather_results_ordered:
  "(gather ops idx query threshold_bp = Inr res \<longrightarrow> sorted_wrt (gather_order ops) res)
   \<and> (counter_gather ops idx query threshold_bp = Some (Inr res')
        \<longrightarrow> sorted_wrt (gather_order ops) res')
   \<and> ((\<forall>a b. 0 \<le> count_common ops a b) \<and> 0 \<le> threshold_bp
          \<and> 0 \<le> mh_scaled (minhash query)
        \<longrightarrow> (\<exists>r. counter_gather ops idx query threshold_bp = Some r))"
  using gather_sorted[of ops idx query threshold_bp res]
        Index_counter_gather_sorted
          [of ops "signatures idx" "getattr_filename idx" query threshold_bp res']
        Index_counter_gather_returns
          [of ops threshold_bp query "signatures idx" "getattr_filename idx"]
  by (simp add: counter_gather_def)

theorem gather_results_ordered_witness:
  "gather set_ops (LinearIndex [sigA, sigB, sigC] (Some ''x.sig'')) sigQ 0
     = Inr [(1 / 2, sigB, Some ''x.sig''), (1 / 2, sigA, Some ''x.sig''),
            (1 / 3, sigC, Some ''x.sig'')]
   \<and> sorted_wrt (gather_order set_ops)
        [(1 / 2, sigB, Some ''x.sig''), (1 / 2, sigA, Some ''x.sig''),
         (1 / 3, sigC, Some ''x.sig'')]
   \<and> counter_gather set_ops (LinearIndex [sigA, sigB, sigC] (Some ''x.sig'')) sigQ 0
     = Some (Inr [(1 / 2, sigB, None), (1 / 2, sigA, None)])
   \<and> sorted_wrt (gather_order set_ops) [(1 / 2, sigB, None), (1 / 2, sigA, None)]"
proof -
  have g: "gather set_ops (LinearIndex [sigA, sigB, sigC] (Some ''x.sig'')) sigQ 0
     = Inr [(1 / 2, sigB, Some ''x.sig''), (1 / 2, sigA, Some ''x.sig''),
            (1 / 3, sigC, Some ''x.sig'')]"
    by code_simp
  have c: "counter_gather set_ops (LinearIndex [sigA, sigB, sigC] (Some ''x.sig'')) sigQ 0
     = Some (Inr [(1 / 2, sigB, None), (1 / 2, sigA, None)])"
    by code_simp
  from gather_results_ordered
         [of set_ops "LinearIndex [sigA, sigB, sigC] (Some ''x.sig'')" sigQ 0
             "[(1 / 2, sigB, Some ''x.sig''), (1 / 2, sigA, Some ''x.sig''),
               (1 / 3, sigC, Some ''x.sig'')]"
             "[(1 / 2, sigB, None), (1 / 2, sigA, None)]"]
       g c
  show ?thesis by blast
qed

text \<open>
  C6. In every iteration of the greedy loop (any state with a non-empty counter that
  passes the loop test), the entry taken is \<open>most_common()[0]\<close>: it has the largest
  stored count, and every entry that precedes it in the insertion order of the counter
  has a strictly smaller count, so among equal counts the one inserted earliest wins.
  If its count is below \<open>n_threshold_hashes\<close> the loop returns the results
  accumulated so far, without an error; otherwise the signature of that entry is the
  match, it is appended to the results when its containment is nonzero and at least the
  threshold, and the loop goes on.
\<close>

theorem greedy_iteration:
  assumes "c \<noteq> []" and "n \<le> match_size"
  shows "\<exists>pre top post.
           top = hd (most_common c) \<and> c = pre @ top # post
         \<and> (\<forall>e \<in> set pre. snd e < snd top) \<and> (\<forall>e \<in> set post. snd e \<le> snd top)
         \<and> (real_of_int (snd top) < n \<longrightarrow>
              greedy_loop ops query sigs fn n thr c match_size results = Some results)
         \<and> (n \<le> real_of_int (snd top) \<longrightarrow>
              greedy_loop ops query sigs fn n thr c match_size results
                = greedy_loop ops query sigs fn n thr
                    (fst (greedy_step ops query sigs fn thr c results))
                    (real_of_int (snd top))
                    (snd (greedy_step ops query sigs fn thr c results))
              \<and> snd (greedy_step ops query sigs fn thr c results)
                = (let match = sigs ! fst top;
                       cont = mh_contained_by ops (minhash query) (minhash match)
                   in if cont \<noteq> 0 \<and> cont \<ge> thr
                      then results @ [(cont, match, fn)] else results))"
proof -
  let ?top = "hd (most_common c)"
  from most_common_selection[OF assms(1)] obtain pre post where
    sel: "c = pre @ ?top # post" "\<forall>e \<in> set pre. snd e < snd ?top"
         "\<forall>e \<in> set post. snd e \<le> snd ?top"
    by blast
  have stop: "real_of_int (snd ?top) < n \<longrightarrow>
                greedy_loop ops query sigs fn n thr c match_size results = Some results"
    using assms by (subst greedy_loop.simps) (simp add: Let_def)
  have go: "n \<le> real_of_int (snd ?top) \<longrightarrow>
              greedy_loop ops query sigs fn n thr c match_size results
                = greedy_loop ops query sigs fn n thr
                    (fst (greedy_step ops query sigs fn thr c results))
                    (real_of_int (snd ?top))
                    (snd (greedy_step ops query sigs fn thr c results))"
    using assms by (subst greedy_loop.simps) (simp add: Let_def)
  from sel stop go snd_greedy_step[of ops query sigs fn thr c results]
  show ?thesis by blast
qed


theorem greedy_iteration_witness:
  "[(1, 2), (0, - 3)] \<noteq> ([] :: counter) \<and> (5 / 2 :: real) \<le> 3
   \<and> hd (most_common [(1, 2), (0, - 3)]) = (1, 2)
   \<and> real_of_int 2 < 5 / 2
   \<and> greedy_loop set_ops sigQ [sigA, sigD] None (5 / 2) (5 / 12) [(1, 2), (0, - 3)] 3
         [(1 / 2, sigA, None)]
       = Some [(1 / 2, sigA, None)]
   \<and> hd (most_common [(0, 3), (1, 3)]) = (0, 3)
   \<and> build_counter set_ops sigQ [sigA, sigD] = [(0, 3), (1, 2)]
   \<and> counter_gather set_ops (LinearIndex [sigA, sigD] None) sigQ 2500
       = Some (Inr [(1 / 2, sigA, None)])"
proof -
  have ne: "[(1, 2), (0, - 3)] \<noteq> ([] :: counter)" by simp
  have le: "(5 / 2 :: real) \<le> 3" by simp
  have top: "hd (most_common [(1, 2), (0, - 3)]) = (1, 2)" by code_simp
  have lt: "real_of_int 2 < 5 / 2" by simp
  have top2: "hd (most_common [(0, 3), (1, 3)]) = (0, 3)" by code_simp
  have bc: "build_counter set_ops sigQ [sigA, sigD] = [(0, 3), (1, 2)]" by code_simp
  have cg: "counter_gather set_ops (LinearIndex [sigA, sigD] None) sigQ 2500
       = Some (Inr [(1 / 2, sigA, None)])" by code_simp
  from greedy_iteration[OF ne le, of set_ops sigQ "[sigA, sigD]" None "5 / 12"
         "[(1 / 2, sigA, None)]"]
  have "real_of_int (snd (hd (most_common [(1, 2), (0, - 3)]))) < 5 / 2 \<longrightarrow>
          greedy_loop set_ops sigQ [sigA, sigD] None (5 / 2) (5 / 12) [(1, 2), (0, - 3)] 3
            [(1 / 2, sigA, None)] = Some [(1 / 2, sigA, None)]"
    by blast
  with top lt have "greedy_loop set_ops sigQ [sigA, sigD] None (5 / 2) (5 / 12)
            [(1, 2), (0, - 3)] 3 [(1 / 2, sigA, None)] = Some [(1 / 2, sigA, None)]"
    by simp
  with ne le top lt top2 bc cg show ?thesis by blast
qed

subsection \<open>The source field of the results\<close>

lemma search_scan_source:
  "r \<in> set (search_scan f t loc sl) \<Longrightarrow> snd (snd r) = loc"
  by (auto simp: search_scan_eq tagged_matches_def)

lemma gather_scan_source:
  "r \<in> set (gather_scan ops query thr loc sl) \<Longrightarrow> snd (snd r) = loc"
  by (auto simp: gather_scan_eq tagged_matches_def)

lemma set_sort_reverse [simp]: "set (sort_reverse f xs) = set xs"
  by (simp add: sort_reverse_def)

lemma Index_search_source:
  "Index_search ops sigs loc query threshold dc dmc ia = Inr res \<Longrightarrow> r \<in> set res
     \<Longrightarrow> snd (snd r) = loc"
  by (auto simp: Index_search_def search_scan_source split: option.splits if_splits sum.splits)

lemma Index_gather_source:
  "Index_gather ops sigs loc query threshold_bp = Inr res \<Longrightarrow> r \<in> set res
     \<Longrightarrow> snd (snd r) = loc"
  by (auto simp: Index_gather_def Let_def gather_scan_source split: if_splits sum.splits)

lemma greedy_loop_source:
  "greedy_loop ops query sl filename n thr c ms [] = Some out \<Longrightarrow> r \<in> set out
     \<Longrightarrow> snd (snd r) = filename"
  using greedy_loop_sources[of ops query sl filename n thr c ms "[]" out] by simp

lemma Index_counter_gather_source:
  assumes "Index_counter_gather ops sigs filename query threshold_bp = Some (Inr res)"
      and "r \<in> set res"
  shows "snd (snd r) = filename"
  using assms
  by (auto simp: Index_counter_gather_def Let_def split: if_splits sum.splits
           dest: greedy_loop_source)

text \<open>
  C10. On a \<open>LinearIndex\<close>, every result of \<open>counter_gather\<close> has the source
  \<open>None\<close>, whatever filename the index was built with: \<open>counter_gather\<close> reads the
  attribute \<open>filename\<close>, which \<open>LinearIndex\<close> does not have (it stores the filename
  as \<open>location\<close>). Every result of \<open>search\<close> and of \<open>gather\<close> on the same index
  has the index's location as its source.
\<close>

theorem linear_index_sources:
  "(counter_gather ops (LinearIndex sl filename) query threshold_bp = Some (Inr res)
      \<longrightarrow> (\<forall>r \<in> set res. snd (snd r) = None))
   \<and> (search ops (LinearIndex sl filename) query threshold dc dmc ia = Inr res'
      \<longrightarrow> (\<forall>r \<in> set res'. snd (snd r) = filename))
   \<and> (gather ops (LinearIndex sl filename) query threshold_bp = Inr res''
      \<longrightarrow> (\<forall>r \<in> set res''. snd (snd r) = filename))"
  using Index_counter_gather_source[of ops "Inr sl" None query threshold_bp res]
        Index_search_source[of ops "Inr sl" filename query threshold dc dmc ia res']
        Index_gather_source[of ops "Inr sl" filename query threshold_bp res'']
  by (auto simp: counter_gather_def)

theorem linear_index_sources_witness:
  "counter_gather set_ops (LinearIndex [sigA, sigB] (Some ''x.sig'')) sigQ 0
     = Some (Inr [(1 / 2, sigB, None), (1 / 2, sigA, None)])
   \<and> snd (snd (1 / 2 :: real, sigB, None :: string option)) = None
   \<and> search set_ops (LinearIndex [sigA, sigB] (Some ''x.sig'')) sigQ (Some (2 / 5)) False False False
     = Inr [(1 / 2, sigA, Some ''x.sig''), (1 / 2, sigB, Some ''x.sig'')]
   \<and> gather set_ops (LinearIndex [sigA, sigB] (Some ''x.sig'')) sigQ 0
     = Inr [(1 / 2, sigB, Some ''x.sig''), (1 / 2, sigA, Some ''x.sig'')]
   \<and> list_all (\<lambda>r. snd (snd r) = None) [(1 / 2 :: real, sigB, None), (1 / 2, sigA, None)]
   \<and> list_all (\<lambda>r. snd (snd r) = Some ''x.sig'')
        [(1 / 2 :: real, sigA, Some ''x.sig''), (1 / 2, sigB, Some ''x.sig'')]"
proof -
  have c: "counter_gather set_ops (LinearIndex [sigA, sigB] (Some ''x.sig'')) sigQ 0
     = Some (Inr [(1 / 2, sigB, None), (1 / 2, sigA, None)])" by code_simp
  have s: "search set_ops (LinearIndex [sigA, sigB] (Some ''x.sig'')) sigQ (Some (2 / 5)) False False False
     = Inr [(1 / 2, sigA, Some ''x.sig''), (1 / 2, sigB, Some ''x.sig'')]" by code_simp
  have g: "gather set_ops (LinearIndex [sigA, sigB] (Some ''x.sig'')) sigQ 0
     = Inr [(1 / 2, sigB, Some ''x.sig''), (1 / 2, sigA, Some ''x.sig'')]" by code_simp
  from linear_index_sources
         [of set_ops "[sigA, sigB]" "Some ''x.sig''" sigQ 0
             "[(1 / 2, sigB, None), (1 / 2, sigA, None)]" "Some (2 / 5)" False False False
             "[(1 / 2, sigA, Some ''x.sig''), (1 / 2, sigB, Some ''x.sig'')]"
             "[(1 / 2, sigB, Some ''x.sig''), (1 / 2, sigA, Some ''x.sig'')]"]
       c s g
  have "(\<forall>r \<in> set [(1 / 2 :: real, sigB, None), (1 / 2, sigA, None)]. snd (snd r) = None)
      \<and> (\<forall>r \<in> set [(1 / 2 :: real, sigA, Some ''x.sig''), (1 / 2, sigB, Some ''x.sig'')].
            snd (snd r) = Some ''x.sig'')"
    by simp
  with c s g show ?thesis by (simp add: list_all_iff)
qed

subsection \<open>The candidate mapping after an iteration\<close>

lemma map_of_decrement_other:
  "k' \<noteq> k \<Longrightarrow> map_of (decrement ops sigs match k' c) k = map_of c k"
  by (simp add: decrement_def Let_def update_conv' delete_conv')

lemma map_of_fold_decrement_other:
  "k \<notin> set ks \<Longrightarrow> map_of (fold (decrement ops sigs match) ks c) k = map_of c k"
  by (induction ks arbitrary: c) (auto simp: map_of_decrement_other)

lemma map_of_decrement_absent:
  assumes "map_of c k = None"
      and "count_common ops (minhash (sigs ! k)) (minhash match) \<noteq> 0"
  shows "map_of (decrement ops sigs match k c) k
           = Some (- count_common ops (minhash (sigs ! k)) (minhash match))"
  using assms by (simp add: decrement_def Let_def counter_get_def update_conv')

lemma distinct_keys_most_common:
  "distinct (map fst c) \<Longrightarrow> distinct (map fst (most_common c))"
proof -
  have "mset (map fst (most_common c)) = mset (map fst c)"
    by (simp add: most_common_def)
  then show "distinct (map fst c) \<Longrightarrow> distinct (map fst (most_common c))"
    by (metis mset_eq_imp_distinct_iff)
qed

text \<open>
  The inner loop runs over the snapshot \<open>most_common\<close>, whose first element is the
  chosen entry itself: after \<open>del counter[dataset_id]\<close> the statement
  \<open>counter[dataset_id] -= ...\<close> stores the chosen key again, with the negated overlap
  of the match with itself.
\<close>

lemma chosen_reinserted:
  assumes ne: "c \<noteq> []" and dist: "distinct (map fst c)"
      and self: "count_common ops (minhash (sigs ! fst (hd (most_common c))))
                   (minhash (sigs ! fst (hd (most_common c)))) \<noteq> 0"
  shows "map_of (fst (greedy_step ops query sigs fn thr c results)) (fst (hd (most_common c)))
           = Some (- count_common ops (minhash (sigs ! fst (hd (most_common c))))
                       (minhash (sigs ! fst (hd (most_common c)))))"
proof -
  define k where "k = fst (hd (most_common c))"
  from ne obtain top rest where mc: "most_common c = top # rest"
    by (cases "most_common c") auto
  then have k: "k = fst top" by (simp add: k_def)
  from distinct_keys_most_common[OF dist] mc k have notin: "k \<notin> set (map fst rest)"
    by auto
  have absent: "map_of (AList.delete k c) k = None"
    by (simp add: delete_conv')
  have "map_of (fst (greedy_step ops query sigs fn thr c results)) k
          = map_of (fold (decrement ops sigs (sigs ! k)) (map fst rest)
                      (decrement ops sigs (sigs ! k) k (AList.delete k c))) k"
    by (simp add: fst_greedy_step mc k)
  also have "\<dots> = map_of (decrement ops sigs (sigs ! k) k (AList.delete k c)) k"
    by (rule map_of_fold_decrement_other[OF notin])
  also have "\<dots> = Some (- count_common ops (minhash (sigs ! k)) (minhash (sigs ! k)))"
    using self by (intro map_of_decrement_absent absent) (simp add: k_def)
  finally show ?thesis by (simp add: k_def)
qed

text \<open>
  C7 fails on the code. With two candidates of disjoint sketches, the first iteration
  chooses candidate 0 (count 3); after the iteration the mapping is
  \<open>[(1, 3), (0, -3)]\<close>: the chosen candidate is a key again, with count \<open>-3\<close>, the
  mapping has two entries as before, and the loop goes on (it emits the second candidate
  in the next iteration).
\<close>

theorem counter_gather_reinserts_chosen:
  "build_counter set_ops sigQ [sigA, sigB] = [(0, 3), (1, 3)]
   \<and> hd (most_common [(0, 3), (1, 3)]) = (0, 3)
   \<and> fst (greedy_step set_ops sigQ [sigA, sigB] None 0 [(0, 3), (1, 3)] [])
       = [(1, 3), (0, - 3)]
   \<and> length (fst (greedy_step set_ops sigQ [sigA, sigB] None 0 [(0, 3), (1, 3)] []))
       = length [(0 :: nat, 3 :: int), (1, 3)]
   \<and> counter_gather set_ops (LinearIndex [sigA, sigB] None) sigQ 0
       = Some (Inr [(1 / 2, sigB, None), (1 / 2, sigA, None)])"
  by code_simp

text \<open>
  C8 fails on the code for a recorded source that is set but falsy. With the recorded
  source \<open>''\<close> for a sub-index whose location is \<open>a.sig\<close>, \<open>search\<close> and
  \<open>gather\<close> report \<open>a.sig\<close>: \<open>src or filename\<close> keeps the source of the sub-index
  although the recorded source is not \<open>None\<close>.
\<close>

theorem multi_index_empty_source:
  "search set_ops (MultiIndex [LinearIndex [sigA] (Some ''a.sig'')] [Some ''''])
       sigQ (Some 0) False False False
     = Inr [(1 / 2, sigA, Some ''a.sig'')]
   \<and> gather set_ops (MultiIndex [LinearIndex [sigA] (Some ''a.sig'')] [Some '''']) sigQ 0
     = Inr [(1 / 2, sigA, Some ''a.sig'')]"
  by code_simp

subsection \<open>\<open>select\<close> applied twice\<close>

lemma collect_Inr_iff: "collect xs = Inr ys \<longleftrightarrow> xs = map Inr ys"
proof (induction xs arbitrary: ys)
  case Nil
  show ?case by auto
next
  case (Cons x xs)
  show ?case
  proof (cases x)
    case (Inl e)
    then show ?thesis by auto
  next
    case (Inr v)
    show ?thesis
    proof (cases "collect xs")
      case (Inl e)
      have "xs \<noteq> map Inr zs" for zs
        using Cons.IH[of zs] Inl by auto
      with Inl Inr show ?thesis by auto
    next
      case r: (Inr vs)
      from Cons.IH[of vs] r have "xs = map Inr vs" by blast
      with r Inr show ?thesis by auto
    qed
  qed
qed

lemma select_list_fixed:
  "select_list kw sl = Inr kept \<Longrightarrow> select_list kw kept = Inr kept"
proof (induction sl arbitrary: kept)
  case Nil
  then show ?case by simp
next
  case (Cons ss rest)
  from Cons.prems obtain keep kept' where
    ks: "select_signature ss kw = Inr keep" and r: "select_list kw rest = Inr kept'"
    and k: "kept = (if keep then ss # kept' else kept')"
    by (auto split: sum.splits)
  from Cons.IH[OF r] have "select_list kw kept' = Inr kept'" .
  with ks k show ?case by (cases keep) simp_all
qed

lemma select_fixed: "select idx kw = Inr idx1 \<Longrightarrow> select idx1 kw = Inr idx1"
proof (induction idx arbitrary: idx1)
  case (LinearIndex sigs filename)
  then obtain kept where k: "select_list kw sigs = Inr kept" and i: "idx1 = LinearIndex kept filename"
    by (cases "select_list kw sigs") auto
  from select_list_fixed[OF k] i show ?case by simp
next
  case (ZipFileLinearIndex zf sd tya)
  then show ?case by auto
next
  case (MultiIndex il sl)
  let ?f = "\<lambda>p. map_sum id (\<lambda>idx. (idx, snd p)) (select (fst p) kw)"
  from MultiIndex.prems obtain ps where
    c: "collect (map ?f (zip il sl)) = Inr ps"
    and i: "idx1 = MultiIndex (map fst ps) (map snd ps)"
    by (cases "collect (map ?f (zip il sl))") auto
  from c have m: "map ?f (zip il sl) = map Inr ps" by (simp add: collect_Inr_iff)
  from arg_cong[OF m, of length] have len: "length ps = length (zip il sl)" by simp
  have "map ?f ps = map Inr ps"
  proof (rule nth_equalityI)
    show "length (map ?f ps) = length (map Inr ps)" by simp
  next
    fix j assume "j < length (map ?f ps)"
    then have j: "j < length ps" by simp
    with len have jz: "j < length (zip il sl)" by simp
    from arg_cong[OF m, of "\<lambda>xs. xs ! j"] jz j
    have e: "?f (zip il sl ! j) = Inr (ps ! j)"
      by simp
    then obtain i' where s: "select (fst (zip il sl ! j)) kw = Inr i'"
      and p: "ps ! j = (i', snd (zip il sl ! j))"
      by (cases "select (fst (zip il sl ! j)) kw") auto
    from jz have "zip il sl ! j \<in> set (zip il sl)" by (rule nth_mem)
    then have "fst (zip il sl ! j) \<in> set il" by (rule fst_in_set_zip)
    from MultiIndex.IH[OF this s] have "select i' kw = Inr i'" .
    with p j show "map ?f ps ! j = map Inr ps ! j" by simp
  qed
  then have "collect (map ?f ps) = Inr ps" by (simp add: collect_Inr_iff)
  moreover have "zip (map fst ps) (map snd ps) = ps" by (simp add: zip_map_fst_snd)
  ultimately show ?case using i by simp
qed

text \<open>
  C9. For every backend and every keyword set that \<open>select\<close> accepts on an index
  (it returns an index and does not raise), applying \<open>select\<close> with the same
  keywords to the result is accepted too and yields an index whose enumeration, as a
  multiset, is that of the first result (both enumerations raise the same error if one
  does). In fact the second \<open>select\<close> returns the first result unchanged (lemma
  \<open>select_fixed\<close>).
\<close>

theorem select_idempotent:
  assumes "select idx kw = Inr idx1"
  shows "\<exists>idx2. select idx1 kw = Inr idx2
           \<and> map_sum id mset (signatures idx2) = map_sum id mset (signatures idx1)"
  using select_fixed[OF assms] by simp


theorem select_idempotent_witness:
  "select (MultiIndex [LinearIndex [sigA, num_sig ''n'' [7, 8]] (Some ''x.sig''),
                       ZipFileLinearIndex demo_zip None False] [None, Some ''z''])
          scaled_kw
     = Inr (MultiIndex [LinearIndex [sigA] (Some ''x.sig''),
                        ZipFileLinearIndex demo_zip (Some scaled_kw) False] [None, Some ''z''])
   \<and> (\<exists>idx2. select (MultiIndex [LinearIndex [sigA] (Some ''x.sig''),
                        ZipFileLinearIndex demo_zip (Some scaled_kw) False] [None, Some ''z''])
                   scaled_kw = Inr idx2
          \<and> map_sum id mset (signatures idx2)
              = map_sum id mset
                  (signatures (MultiIndex [LinearIndex [sigA] (Some ''x.sig''),
                        ZipFileLinearIndex demo_zip (Some scaled_kw) False] [None, Some ''z''])))
   \<and> signatures (MultiIndex [LinearIndex [sigA] (Some ''x.sig''),
                        ZipFileLinearIndex demo_zip (Some scaled_kw) False] [None, Some ''z''])
     = Inr [sigA, sigB]"
proof -
  have e: "select (MultiIndex [LinearIndex [sigA, num_sig ''n'' [7, 8]] (Some ''x.sig''),
                       ZipFileLinearIndex demo_zip None False] [None, Some ''z''])
          scaled_kw
     = Inr (MultiIndex [LinearIndex [sigA] (Some ''x.sig''),
                        ZipFileLinearIndex demo_zip (Some scaled_kw) False] [None, Some ''z''])"
    by code_simp
  have s: "signatures (MultiIndex [LinearIndex [sigA] (Some ''x.sig''),
                        ZipFileLinearIndex demo_zip (Some scaled_kw) False] [None, Some ''z''])
     = Inr [sigA, sigB]"
    by code_simp
  from select_idempotent[OF e] e s show ?thesis by blast
qed

subsection \<open>Further facts about the model\<close>

text \<open>With every keyword at its default, \<open>select_signature\<close> accepts every signature.\<close>

lemma select_signature_defaults:
  "select_signature ss \<lparr> kw_ksize = None, kw_moltype = None, kw_scaled = 0, kw_num = 0,
                          kw_containment = False, kw_unexpected = [] \<rparr> = Inr True"
  by (simp add: select_signature_def)

lemma select_list_defaults:
  "select_list \<lparr> kw_ksize = None, kw_moltype = None, kw_scaled = 0, kw_num = 0,
                  kw_containment = False, kw_unexpected = [] \<rparr> sl = Inr sl"
  by (induction sl) (simp_all add: select_signature_defaults)

text \<open>
  The loop rule with the exit condition: when the loop returns, the loop test or the
  threshold test has failed in a state that satisfies the invariant.
\<close>

lemma greedy_loop_exit:
  assumes run: "greedy_loop ops query sigs fn n thr c ms results = Some out"
      and step: "\<And>c ms results. I c ms results \<Longrightarrow> c \<noteq> [] \<Longrightarrow> n \<le> ms
                   \<Longrightarrow> n \<le> real_of_int (snd (hd (most_common c)))
                   \<Longrightarrow> I (fst (greedy_step ops query sigs fn thr c results))
                         (real_of_int (snd (hd (most_common c))))
                         (snd (greedy_step ops query sigs fn thr c results))"
      and init: "I c ms results"
  shows "\<exists>c' ms'. I c' ms' out
           \<and> \<not> (c' \<noteq> [] \<and> n \<le> ms' \<and> n \<le> real_of_int (snd (hd (most_common c'))))"
proof -
  let ?Q = "\<lambda>out. \<exists>c' ms'. I c' ms' out
           \<and> \<not> (c' \<noteq> [] \<and> n \<le> ms' \<and> n \<le> real_of_int (snd (hd (most_common c'))))"
  have "ops = ops \<and> query = query \<and> sigs = sigs \<and> fn = fn \<and> n = n \<and> thr = thr
          \<longrightarrow> I c ms results \<longrightarrow> ?Q out"
  proof (rule greedy_loop.raw_induct
      [where P = "\<lambda>ops' query' sigs' fn' n' thr' c ms results out.
                    ops' = ops \<and> query' = query \<and> sigs' = sigs \<and> fn' = fn \<and> n' = n \<and> thr' = thr
                      \<longrightarrow> I c ms results \<longrightarrow> ?Q out", OF _ run])
    fix f ops' query' sigs' fn' n' thr' c ms results out
    assume IH: "\<And>ops' query' sigs' fn' n' thr' c ms results out.
               f ops' query' sigs' fn' n' thr' c ms results = Some out \<Longrightarrow>
               ops' = ops \<and> query' = query \<and> sigs' = sigs \<and> fn' = fn \<and> n' = n \<and> thr' = thr
                      \<longrightarrow> I c ms results \<longrightarrow> ?Q out"
      and body: "(if c \<noteq> [] \<and> n' \<le> ms
        then let size = snd (hd (most_common c))
             in if n' \<le> real_of_int size
                then f ops' query' sigs' fn' n' thr'
                      (fst (greedy_step ops' query' sigs' fn' thr' c results))
                      (real_of_int size)
                      (snd (greedy_step ops' query' sigs' fn' thr' c results))
                else Some results
        else Some results) = Some out"
    show "ops' = ops \<and> query' = query \<and> sigs' = sigs \<and> fn' = fn \<and> n' = n \<and> thr' = thr
                      \<longrightarrow> I c ms results \<longrightarrow> ?Q out"
    proof (intro impI, elim conjE)
      assume eqs: "ops' = ops" "query' = query" "sigs' = sigs" "fn' = fn" "n' = n" "thr' = thr"
        and inv: "I c ms results"
      show "?Q out"
      proof (cases "c \<noteq> [] \<and> n \<le> ms \<and> n \<le> real_of_int (snd (hd (most_common c)))")
        case True
        with body eqs have
          "f ops query sigs fn n thr
              (fst (greedy_step ops query sigs fn thr c results))
              (real_of_int (snd (hd (most_common c))))
              (snd (greedy_step ops query sigs fn thr c results)) = Some out"
          by (simp add: Let_def)
        moreover have "I (fst (greedy_step ops query sigs fn thr c results))
                         (real_of_int (snd (hd (most_common c))))
                         (snd (greedy_step ops query sigs fn thr c results))"
          using step[OF inv] True by simp
        ultimately show ?thesis using IH by blast
      next
        case False
        with body eqs have "out = results"
          by (auto simp: Let_def split: if_splits)
        with inv False show ?thesis by blast
      qed
    qed
  qed
  with init show ?thesis by simp
qed

text \<open>
  With a negative threshold the loop need not end: the re-inserted entry of the chosen
  candidate has a negative count that still passes the threshold, so it is chosen again
  and again.
\<close>

lemma greedy_loop_diverges:
  assumes "- 10 \<le> ms"
  shows "greedy_loop set_ops sigQ [sigA] None (- 10) thr [(0, - 3)] ms results = None"
proof (rule ccontr)
  assume "greedy_loop set_ops sigQ [sigA] None (- 10) thr [(0, - 3)] ms results \<noteq> None"
  then obtain out where
    run: "greedy_loop set_ops sigQ [sigA] None (- 10) thr [(0, - 3)] ms results = Some out"
    by auto
  have top: "hd (most_common [(0, - 3)]) = (0, - 3)" by code_simp
  have nxt: "fst (greedy_step set_ops sigQ [sigA] None thr [(0, - 3)] results) = [(0, - 3)]"
    for results
    unfolding fst_greedy_step by code_simp
  have "\<exists>c' (ms' :: real). (c' = [(0, - 3)] \<and> - 10 \<le> ms')
           \<and> \<not> (c' \<noteq> [] \<and> - 10 \<le> ms' \<and> - 10 \<le> real_of_int (snd (hd (most_common c'))))"
    by (rule greedy_loop_exit[OF run, where I = "\<lambda>c ms results. c = [(0, - 3)] \<and> - 10 \<le> ms"])
       (simp_all add: assms nxt top)
  then show False by (auto simp: top)
qed

lemma counter_gather_negative_threshold_diverges:
  "counter_gather set_ops (LinearIndex [sigA] None) sigQ (- 10000) = None"
proof -
  have bc: "build_counter set_ops sigQ [sigA] = [(0, 3)]" by code_simp
  have top: "hd (most_common [(0, 3)]) = (0, 3)" by code_simp
  have nxt: "fst (greedy_step set_ops sigQ [sigA] None thr [(0, 3)] []) = [(0, - 3)]" for thr
    unfolding fst_greedy_step by code_simp
  have "greedy_loop set_ops sigQ [sigA] None (- 10) thr [(0, 3)] (- 10) [] = None" for thr
    by (subst greedy_loop.simps) (simp add: top nxt greedy_loop_diverges)
  moreover have "mh_len set_ops (minhash sigQ) = 6"
    by (simp add: set_ops_def sigQ_def scaled_sig_def)
  moreover have "mh_scaled (minhash sigQ) = 1000"
    by (simp add: sigQ_def scaled_sig_def)
  ultimately show ?thesis
    by (simp add: counter_gather_def Index_counter_gather_def bc)
qed

text \<open>
  \<open>MultiIndex.search\<close> and \<open>MultiIndex.gather\<close> check nothing themselves: the
  argument checks are those of the sub-indexes, so a \<open>MultiIndex\<close> without
  sub-indexes returns the empty list whatever the arguments are.
\<close>

lemma multi_index_without_subindexes:
  "search ops (MultiIndex [] []) query threshold dc dmc ia = Inr []
   \<and> gather ops (MultiIndex [] []) query threshold_bp = Inr []"
  by simp

lemma multi_index_search_first_error:
  "search ops (MultiIndex (LinearIndex sl filename # il) (src # srcs)) query None dc dmc ia
     = Inl (TypeError ''search requires threshold'')"
  by (simp add: Index_search_def)

end
